theory Spec2Isabelle
  imports Complex_Main "HOL-Library.Multiset" "HOL-Library.Word"
begin

chapter \<open>The model\<close>

section \<open>Data model\<close>

text \<open>
  The enumerations, \<open>EnvVars\<close>, \<open>SubExecParam\<close> and \<open>Transfer\<close> are declared in the
  headers TransferBench.hpp and EnvVars.hpp; the datatypes and records below hold the
  members that TransferBench.cpp reads or writes, under the names it uses.  A \<open>float*\<close> is an element address (a natural number
  counting floats), \<open>size_t\<close> quantities are naturals, \<open>int\<close> quantities are integers.
  Every \<open>printf\<close> followed by \<open>exit(1)\<close> is the error value \<open>Fatal\<close> carrying the
  format string (without the trailing newline); a hardware trap or an uncaught C++
  exception is \<open>Trap\<close>.
\<close>

datatype ExeType = EXE_CPU | EXE_GPU_GFX | EXE_GPU_DMA

datatype MemType = MEM_CPU | MEM_GPU | MEM_CPU_FINE | MEM_GPU_FINE | MEM_CPU_UNPINNED | MEM_NULL

datatype BlockOrder = ORDER_SEQUENTIAL | ORDER_INTERLEAVED | ORDER_RANDOM

datatype error = Fatal string | Trap string

text \<open>
  Modelled from the spec: \<open>IsCpuType\<close> and \<open>IsGpuType\<close> (TransferBench.hpp, absent).
  Section 3 of the specification splits the memory domains into the host variants
  (pinned coherent, pinned non-coherent, unpinned) and the device variants (standard,
  fine-grained), and the executors into the host thread pool and the two device
  executors.
\<close>

fun IsCpuMem :: "MemType \<Rightarrow> bool" where
  "IsCpuMem MEM_CPU = True"
| "IsCpuMem MEM_CPU_FINE = True"
| "IsCpuMem MEM_CPU_UNPINNED = True"
| "IsCpuMem _ = False"

fun IsGpuMem :: "MemType \<Rightarrow> bool" where
  "IsGpuMem MEM_GPU = True"
| "IsGpuMem MEM_GPU_FINE = True"
| "IsGpuMem _ = False"

fun IsCpuExe :: "ExeType \<Rightarrow> bool" where
  "IsCpuExe EXE_CPU = True"
| "IsCpuExe _ = False"

fun IsGpuExe :: "ExeType \<Rightarrow> bool" where
  "IsGpuExe EXE_CPU = False"
| "IsGpuExe _ = True"

record SubExecParam =
  N :: nat
  numSrcs :: nat
  numDsts :: nat
  src :: "nat list"
  dst :: "nat list"
  preferredXccId :: int
  startCycle :: int
  stopCycle :: int
  hwId :: nat
  xccId :: nat

text \<open>
  What \<open>std::vector::resize\<close> puts into a new slot: a value-initialised struct.  The
  arrays \<open>src\<close> and \<open>dst\<close> are lists of as many pointers as the code fills in.
\<close>

definition zeroSubExecParam :: SubExecParam where
  "zeroSubExecParam =
     \<lparr>N = 0, numSrcs = 0, numDsts = 0, src = [], dst = [], preferredXccId = 0,
      startCycle = 0, stopCycle = 0, hwId = 0, xccId = 0\<rparr>"

text \<open>
  Of \<open>EnvVars\<close>, the members used below.  \<open>byteOffset\<close> and \<open>blockBytes\<close> are ints that
  hold byte counts and are read as naturals; \<open>prefXccTable\<close> is a table indexed twice.
\<close>

record 'f EnvVars =
  byteOffset :: nat
  blockBytes :: nat
  useXccFilter :: bool
  prefXccTable :: "int \<Rightarrow> int \<Rightarrow> int"
  useSingleStream :: bool
  blockOrder :: BlockOrder
  showIterations :: bool
  continueOnError :: bool
  validateDirect :: bool
  alwaysValidate :: bool
  fillPattern :: "'f list"

record 't Transfer =
  transferIndex :: int
  exeType :: ExeType
  exeIndex :: int
  numSubExecs :: int
  numBytes :: nat
  numBytesActual :: nat
  numSrcs :: nat
  numDsts :: nat
  srcType :: "MemType list"
  srcIndex :: "int list"
  dstType :: "MemType list"
  dstIndex :: "int list"
  srcMem :: "nat list"
  dstMem :: "nat list"
  subExecParam :: "SubExecParam list"
  subExecIdx :: "nat list"
  subExecParamGpuPtr :: nat
  transferTime :: 't
  perIterationTime :: "'t list"
  perIterationCUs :: "(nat \<times> nat) set list"

section \<open>The sub-executor partitioner: \<open>Transfer::PrepareSubExecParams\<close>\<close>

text \<open>
  The loop body for sub-executor \<open>i\<close>, entered with the running count \<open>assigned\<close>:
  \<open>subExecParamAt\<close> is the value of \<open>p\<close> when the body ends, and \<open>subExecStep\<close>
  stores it in slot \<open>i\<close> of the vector and advances \<open>assigned\<close> by \<open>p.N\<close>.
  \<open>nElems\<close> is the local \<open>N\<close>; \<open>subExecLeft\<close> and \<open>maxSubExecToUse\<close> are C ints,
  the other quantities are \<open>size_t\<close>.  The subtraction \<open>N - assigned\<close> is written on
  naturals; lemma \<open>partition_assigned_le\<close> below shows that it never goes below zero.
\<close>

definition subExecParamAt ::
  "'f EnvVars \<Rightarrow> 't Transfer \<Rightarrow> nat \<Rightarrow> nat \<Rightarrow> nat \<Rightarrow> int \<Rightarrow> nat \<Rightarrow> nat \<Rightarrow> SubExecParam" where
  "subExecParamAt ev t nElems initOffset targetMultiple maxSubExecToUse i assigned =
     (let subExecLeft = max 0 (maxSubExecToUse - int i);
          leftover = nElems - assigned;
          roundedN = (leftover + targetMultiple - 1) div targetMultiple
      in \<lparr>N = (if subExecLeft \<noteq> 0
                then min leftover ((roundedN div nat subExecLeft) * targetMultiple)
                else 0),
           numSrcs = Transfer.numSrcs t,
           numDsts = Transfer.numDsts t,
           src = map (\<lambda>iSrc. srcMem t ! iSrc + assigned + initOffset) [0..<Transfer.numSrcs t],
           dst = map (\<lambda>iDst. dstMem t ! iDst + assigned + initOffset) [0..<Transfer.numDsts t],
           preferredXccId =
             (if useXccFilter ev \<and> exeType t = EXE_GPU_GFX \<and> Transfer.numDsts t = 1
                 \<and> IsGpuMem (dstType t ! 0)
              then prefXccTable ev (exeIndex t) (dstIndex t ! 0) else -1),
           startCycle = 0, stopCycle = 0, hwId = 0, xccId = 0\<rparr>)"

definition subExecStep ::
  "'f EnvVars \<Rightarrow> 't Transfer \<Rightarrow> nat \<Rightarrow> nat \<Rightarrow> nat \<Rightarrow> int \<Rightarrow> nat \<Rightarrow>
   nat \<times> SubExecParam list \<Rightarrow> nat \<times> SubExecParam list" where
  "subExecStep ev t nElems initOffset targetMultiple maxSubExecToUse i st =
     (let assigned = fst st;
          p = subExecParamAt ev t nElems initOffset targetMultiple maxSubExecToUse i assigned
      in (assigned + N p, (snd st)[i := p]))"

text \<open>
  The whole member function.  \<open>sizeof(float)\<close> is 4.  A block size below one element
  divides by zero; a negative \<open>numSubExecs\<close> converts to a \<open>size_t\<close> beyond
  \<open>max_size()\<close>, so \<open>resize\<close> throws.
\<close>

definition maxSubExecToUse :: "nat \<Rightarrow> nat \<Rightarrow> int \<Rightarrow> int" where
  "maxSubExecToUse nElems targetMultiple S =
     int (min ((nElems + targetMultiple - 1) div targetMultiple) (nat S))"

definition PrepareSubExecParams :: "'f EnvVars \<Rightarrow> ('t::zero) Transfer \<Rightarrow> error + 't Transfer" where
  "PrepareSubExecParams ev t =
     (let nElems = numBytesActual t div 4;
          initOffset = byteOffset ev div 4;
          targetMultiple = blockBytes ev div 4
      in if targetMultiple = 0 then Inl (Trap ''integer division by zero'')
         else if numSubExecs t < 0 then Inl (Trap ''std::length_error'')
         else
           let S = nat (numSubExecs t);
               m = maxSubExecToUse nElems targetMultiple (numSubExecs t);
               st = fold (subExecStep ev t nElems initOffset targetMultiple m) [0..<S]
                      (0, replicate S zeroSubExecParam)
           in Inr (t\<lparr>subExecParam := snd st, transferTime := 0, perIterationTime := []\<rparr>))"

text \<open>
  The element offset of unit \<open>i\<close> inside its Transfer, as the claims state it: the sum of
  the counts of all earlier units.
\<close>

definition prefixN :: "SubExecParam list \<Rightarrow> nat \<Rightarrow> nat" where
  "prefixN ps i = sum_list (map N (take i ps))"

text \<open>
  The quantities of section 4.2 of the specification, in its own words and with real
  division: \<open>maxUsable = min(S, ceil(N/G))\<close>, \<open>subExecLeft = max(0, maxUsable - i)\<close> and
  \<open>count = subExecLeft>0 ? min(remaining, ceil(remaining/G/subExecLeft)*G) : 0\<close>.
\<close>

definition spec_maxUsable :: "nat \<Rightarrow> nat \<Rightarrow> nat \<Rightarrow> nat" where
  "spec_maxUsable n S G = min S (nat \<lceil>real n / real G\<rceil>)"

definition spec_subExecLeft :: "nat \<Rightarrow> nat \<Rightarrow> int" where
  "spec_subExecLeft maxUsable i = max 0 (int maxUsable - int i)"

definition spec_count :: "nat \<Rightarrow> nat \<Rightarrow> int \<Rightarrow> nat" where
  "spec_count remaining G subExecLeft =
     (if subExecLeft > 0
      then min remaining (nat \<lceil>real remaining / real G / real_of_int subExecLeft\<rceil> * G)
      else 0)"

text \<open>
  What the code computes instead: the number of blocks still to hand out is rounded up,
  then divided by \<open>subExecLeft\<close> with C's integer division.
\<close>

definition code_count :: "nat \<Rightarrow> nat \<Rightarrow> int \<Rightarrow> nat" where
  "code_count remaining G subExecLeft =
     (if subExecLeft > 0
      then min remaining (nat \<lceil>real remaining / real G\<rceil> div nat subExecLeft * G)
      else 0)"

text \<open>A small configuration and Transfer on which the partitioner is run below.\<close>

definition exampleEnv :: "int EnvVars" where
  "exampleEnv =
     \<lparr>byteOffset = 0, blockBytes = 8, useXccFilter = False, prefXccTable = (\<lambda>_ _. 0),
      useSingleStream = False, blockOrder = ORDER_SEQUENTIAL, showIterations = False,
      continueOnError = True, validateDirect = False, alwaysValidate = False,
      fillPattern = []\<rparr>"

definition exampleTransfer :: "int Transfer" where
  "exampleTransfer =
     \<lparr>transferIndex = 0, exeType = EXE_CPU, exeIndex = 0, numSubExecs = 3, numBytes = 0,
      numBytesActual = 40, numSrcs = 1, numDsts = 1, srcType = [MEM_CPU], srcIndex = [0],
      dstType = [MEM_CPU], dstIndex = [0], srcMem = [1000], dstMem = [2000],
      subExecParam = [], subExecIdx = [], subExecParamGpuPtr = 0, transferTime = 0,
      perIterationTime = [], perIterationCUs = []\<rparr>"

text \<open>
  The shape of the vector the loop leaves behind: slot \<open>j\<close> holds the parameters the loop
  body builds for index \<open>j\<close> when entered with the counts of the slots before it.
\<close>

definition loop_result ::
  "'f EnvVars \<Rightarrow> 't Transfer \<Rightarrow> nat \<Rightarrow> nat \<Rightarrow> nat \<Rightarrow> int \<Rightarrow> SubExecParam list \<Rightarrow> bool" where
  "loop_result ev t nElems initOffset targetMultiple m ps \<longleftrightarrow>
     (\<forall>j<length ps. ps ! j = subExecParamAt ev t nElems initOffset targetMultiple m j (prefixN ps j))"

section \<open>The pattern generator: \<open>Transfer::PrepareReference\<close>\<close>

text \<open>
  A \<open>float\<close> is a value of an arbitrary type \<open>'f\<close>; \<open>+=\<close> on floats is the \<open>+\<close> of
  that type, of which no law is assumed, and a value-initialised float is its \<open>0\<close>.
  The header's parts that the generator and the validator use are parameters:
  \<open>PrepSrcValue\<close> (the deterministic source pattern), the byte \<open>MEMSET_CHAR\<close>,
  the reading of four bytes of memory as a float, and the comparison \<open>!=\<close> of two floats.
\<close>

record 'f Header =
  PrepSrcValue :: "int \<Rightarrow> nat \<Rightarrow> 'f"
  MEMSET_CHAR :: "8 word"
  floatOfBytes :: "8 word list \<Rightarrow> 'f"
  floatNe :: "'f \<Rightarrow> 'f \<Rightarrow> bool"

text \<open>\<open>for (i = 0; i < n; ++i) buffer[i] = g(i, buffer[i])\<close>, on a vector updated in place.\<close>

definition forEachElem :: "nat \<Rightarrow> (nat \<Rightarrow> 'a \<Rightarrow> 'a) \<Rightarrow> 'a list \<Rightarrow> 'a list" where
  "forEachElem n g buffer = fold (\<lambda>i b. b[i := g i (b ! i)]) [0..<n] buffer"

text \<open>
  \<open>memset(buffer.data(), MEMSET_CHAR, N * sizeof(float))\<close>: every one of the four bytes
  of every element becomes \<open>MEMSET_CHAR\<close>.
\<close>

definition memsetFloats :: "'f Header \<Rightarrow> 'f list \<Rightarrow> 'f list" where
  "memsetFloats h buffer =
     map (\<lambda>_. floatOfBytes h (replicate 4 (MEMSET_CHAR h))) buffer"

text \<open>
  The member function; it returns the buffer it was handed, filled.  For the destination
  (\<open>bufferIdx < 0\<close>) it calls itself for source 0 on the buffer and for every further
  source on the scratch vector \<open>temp(N)\<close>, which it adds to the buffer element by element.
\<close>

function PrepareReference ::
  "'f Header \<Rightarrow> 'f EnvVars \<Rightarrow> 't Transfer \<Rightarrow> ('f::{zero,plus}) list \<Rightarrow> int \<Rightarrow> 'f list" where
  "PrepareReference h ev t buffer bufferIdx =
     (let n = length buffer in
      if bufferIdx \<ge> 0 then
        (let patternLen = length (fillPattern ev) in
         if patternLen > 0
         then forEachElem n (\<lambda>i _. fillPattern ev ! (i mod patternLen)) buffer
         else forEachElem n (\<lambda>i _. PrepSrcValue h bufferIdx i) buffer)
      else if Transfer.numSrcs t = 0 then memsetFloats h buffer
      else
        (let buffer0 = PrepareReference h ev t buffer 0 in
         if Transfer.numSrcs t > 1
         then fold (\<lambda>srcIdx b.
                      let temp = PrepareReference h ev t (replicate n 0) (int srcIdx)
                      in forEachElem n (\<lambda>i x. x + temp ! i) b)
                [1..<Transfer.numSrcs t] buffer0
         else buffer0))"
  by pat_completeness auto
termination
  by (relation "measure (\<lambda>(h, ev, t, buffer, bufferIdx). if bufferIdx < 0 then 1 else 0)") auto

text \<open>The reference sequence of source \<open>s\<close>, of \<open>n\<close> elements, on a fresh vector.\<close>

definition srcReference ::
  "'f Header \<Rightarrow> 'f EnvVars \<Rightarrow> 't Transfer \<Rightarrow> nat \<Rightarrow> nat \<Rightarrow> ('f::{zero,plus}) list" where
  "srcReference h ev t n s = PrepareReference h ev t (replicate n 0) (int s)"

declare PrepareReference.simps [simp del]

section \<open>Reading a line of the configuration: \<open>ParseTransfers\<close>\<close>

subsection \<open>The library's readers\<close>

text \<open>
  The C and C++ library readers that the parser calls, on a string without its
  terminating NUL.  \<open>scanInt\<close> is the common core of \<open>strtol\<close>, \<open>%d\<close> and
  \<open>operator>>(int&)\<close>: white space, an optional sign, then at least one decimal digit;
  it returns the value and the unread rest.
\<close>

definition isspace :: "char \<Rightarrow> bool" where
  "isspace c \<longleftrightarrow> c \<in> set [CHR '' '', CHR 0x09, CHR 0x0A, CHR 0x0B, CHR 0x0C, CHR 0x0D]"

definition isdigit :: "char \<Rightarrow> bool" where
  "isdigit c \<longleftrightarrow> c \<in> set ''0123456789''"

definition toupper :: "char \<Rightarrow> char" where
  "toupper c =
     (if (of_char c :: nat) \<ge> 97 \<and> (of_char c :: nat) \<le> 122
      then char_of ((of_char c :: nat) - 32) else c)"

definition digitsValue :: "string \<Rightarrow> nat" where
  "digitsValue ds = foldl (\<lambda>a c. 10 * a + ((of_char c :: nat) - 48)) 0 ds"

definition scanInt :: "string \<Rightarrow> (int \<times> string) option" where
  "scanInt s =
     (let s1 = dropWhile isspace s;
          neg = (s1 \<noteq> [] \<and> hd s1 = CHR ''-'');
          s2 = (if s1 \<noteq> [] \<and> (hd s1 = CHR ''-'' \<or> hd s1 = CHR ''+'') then tl s1 else s1);
          ds = takeWhile isdigit s2
      in if ds = [] then None
         else Some (if neg then - int (digitsValue ds) else int (digitsValue ds),
                    dropWhile isdigit s2))"

text \<open>
  \<open>iss >> n\<close> for an \<open>int n\<close>: \<open>None\<close> stands for the stream's fail bit, which is set
  when no number can be read and when the number does not fit an \<open>int\<close>.
\<close>

definition streamInt :: "string \<Rightarrow> (int \<times> string) option" where
  "streamInt s =
     (case scanInt s of
        None \<Rightarrow> None
      | Some (v, r) \<Rightarrow> if v < - (2 ^ 31) \<or> v > 2 ^ 31 - 1 then None else Some (v, r))"

text \<open>\<open>iss >> str\<close> for a \<open>std::string\<close>: the next run of characters that are not white space.\<close>

definition streamToken :: "string \<Rightarrow> (string \<times> string) option" where
  "streamToken s =
     (let s1 = dropWhile isspace s;
          tok = takeWhile (\<lambda>c. \<not> isspace c) s1
      in if tok = [] then None else Some (tok, dropWhile (\<lambda>c. \<not> isspace c) s1))"

text \<open>
  \<open>sscanf(s, " %c %d%n", &typeChar, &devIndex, &inc) == 2\<close>, and likewise for the format
  \<open>" %c%d"\<close>, since \<open>%d\<close> skips white space itself: the character, the
  integer and the number of characters consumed.  An index that does not fit an \<open>int\<close>
  is undefined behaviour in \<open>sscanf\<close>; it is read here at its mathematical value.
\<close>

definition scanCharInt :: "string \<Rightarrow> (char \<times> int \<times> nat) option" where
  "scanCharInt s =
     (case dropWhile isspace s of
        [] \<Rightarrow> None
      | c # r \<Rightarrow>
          (case scanInt r of
             None \<Rightarrow> None
           | Some (v, rest) \<Rightarrow> Some (c, v, length s - length rest)))"

text \<open>
  \<open>sscanf(tok, "%lu", &numBytes) == 1\<close>, which reads as \<open>strtoul\<close> does: a value
  beyond \<open>ULONG_MAX\<close> is \<open>ULONG_MAX\<close>, a negative one is negated modulo \<open>2^64\<close>.
\<close>

definition scanULong :: "string \<Rightarrow> nat option" where
  "scanULong s =
     (case scanInt s of
        None \<Rightarrow> None
      | Some (v, r) \<Rightarrow>
          Some (if v \<ge> 2 ^ 64 \<or> v \<le> - (2 ^ 64) then 2 ^ 64 - 1 else nat (v mod 2 ^ 64)))"

text \<open>\<open>atoll\<close>: as \<open>strtoll\<close>, and 0 when there is no number.\<close>

definition atoll :: "string \<Rightarrow> int" where
  "atoll s =
     (case scanInt s of
        None \<Rightarrow> 0
      | Some (v, r) \<Rightarrow> max (- (2 ^ 63)) (min (2 ^ 63 - 1) v))"

subsection \<open>Tokens for memory and executor\<close>

text \<open>
  \<open>CharToMemType\<close> and \<open>CharToExeType\<close> belong to the header, which is absent: they
  are parameters, and may end the process themselves on a letter they do not know.
\<close>

record CharTables =
  CharToMemType :: "char \<Rightarrow> error + MemType"
  CharToExeType :: "char \<Rightarrow> error + ExeType"

text \<open>
  \<open>ParseMemType\<close>.  The \<open>while\<close> loop is a recursion on the part of the token from
  \<open>offset\<close> on; its state is \<open>found\<close> and the two vectors.
\<close>

function ParseMemTypeLoop ::
  "CharTables \<Rightarrow> int \<Rightarrow> int \<Rightarrow> string \<Rightarrow> bool \<times> MemType list \<times> int list
     \<Rightarrow> error + (bool \<times> MemType list \<times> int list)" where
  "ParseMemTypeLoop tabs numCpus numGpus s st =
     (case scanCharInt s of
        None \<Rightarrow> Inr st
      | Some (typeChar, devIndex, inc) \<Rightarrow>
          (case CharToMemType tabs typeChar of
             Inl e \<Rightarrow> Inl e
           | Inr memType \<Rightarrow>
               if IsCpuMem memType \<and> (devIndex < 0 \<or> devIndex \<ge> numCpus)
               then Inl (Fatal ''[ERROR] CPU index must be between 0 and %d (instead of %d)'')
               else if IsGpuMem memType \<and> (devIndex < 0 \<or> devIndex \<ge> numGpus)
               then Inl (Fatal ''[ERROR] GPU index must be between 0 and %d (instead of %d)'')
               else ParseMemTypeLoop tabs numCpus numGpus (drop inc s)
                      (case st of (found, memTypes, memIndices) \<Rightarrow>
                         if memType \<noteq> MEM_NULL
                         then (True, memTypes @ [memType], memIndices @ [devIndex])
                         else (True, memTypes, memIndices))))"
  by pat_completeness auto
termination
proof (relation "measure (\<lambda>(tabs, numCpus, numGpus, s, st). length s)")
  show "wf (measure (\<lambda>(tabs, numCpus, numGpus, s, st). length s))" by simp
next
  fix tabs :: CharTables and numCpus numGpus :: int and s :: string
    and st :: "bool \<times> MemType list \<times> int list"
    and x2 :: "char \<times> int \<times> nat" and typeChar :: char and y :: "int \<times> nat"
    and devIndex :: int and inc :: nat and memType :: MemType
  assume "scanCharInt s = Some x2" "(typeChar, y) = x2" "(devIndex, inc) = y"
  then have "scanCharInt s = Some (typeChar, devIndex, inc)" by simp
  then obtain c r rest where s: "dropWhile isspace s = c # r"
    and r: "scanInt r = Some (devIndex, rest)" and inc: "inc = length s - length rest"
    by (auto simp: scanCharInt_def split: list.splits option.splits)
  let ?s1 = "dropWhile isspace r"
  let ?s2 = "if ?s1 \<noteq> [] \<and> (hd ?s1 = CHR ''-'' \<or> hd ?s1 = CHR ''+'') then tl ?s1 else ?s1"
  from r have "rest = dropWhile isdigit ?s2"
    by (auto simp: scanInt_def Let_def split: if_splits)
  then have "length rest \<le> length ?s2" by (simp add: length_dropWhile_le)
  also have "length ?s2 \<le> length ?s1" by simp
  also have "length ?s1 \<le> length r" by (rule length_dropWhile_le)
  finally have shorter: "length rest \<le> length r" .
  have "length (dropWhile isspace s) \<le> length s" by (rule length_dropWhile_le)
  then have "Suc (length r) \<le> length s" by (simp add: s)
  with shorter inc have "length s - inc < length s" by linarith
  then show "((tabs, numCpus, numGpus, drop inc s,
          case st of (found, memTypes, memIndices) \<Rightarrow>
            if memType \<noteq> MEM_NULL
            then (True, memTypes @ [memType], memIndices @ [devIndex])
            else (True, memTypes, memIndices)),
         tabs, numCpus, numGpus, s, st)
        \<in> measure (\<lambda>(tabs, numCpus, numGpus, s, st). length s)"
    by simp
qed

declare ParseMemTypeLoop.simps [simp del]

definition ParseMemType ::
  "CharTables \<Rightarrow> string \<Rightarrow> int \<Rightarrow> int \<Rightarrow> error + (MemType list \<times> int list)" where
  "ParseMemType tabs token numCpus numGpus =
     (case ParseMemTypeLoop tabs numCpus numGpus token (False, [], []) of
        Inl e \<Rightarrow> Inl e
      | Inr (found, memTypes, memIndices) \<Rightarrow>
          if \<not> found
          then Inl (Fatal ''[ERROR] Unable to parse memory type token %s.  Expected one of %s followed by an index'')
          else Inr (memTypes, memIndices))"

definition ParseExeType ::
  "CharTables \<Rightarrow> string \<Rightarrow> int \<Rightarrow> int \<Rightarrow> error + (ExeType \<times> int)" where
  "ParseExeType tabs token numCpus numGpus =
     (case scanCharInt token of
        None \<Rightarrow> Inl (Fatal ''[ERROR] Unable to parse valid executor token (%s).  Exepected one of %s followed by an index'')
      | Some (typeChar, exeIdx, inc) \<Rightarrow>
          (case CharToExeType tabs typeChar of
             Inl e \<Rightarrow> Inl e
           | Inr exeTy \<Rightarrow>
               if IsCpuExe exeTy \<and> (exeIdx < 0 \<or> exeIdx \<ge> numCpus)
               then Inl (Fatal ''[ERROR] CPU index must be between 0 and %d (instead of %d)'')
               else if IsGpuExe exeTy \<and> (exeIdx < 0 \<or> exeIdx \<ge> numGpus)
               then Inl (Fatal ''[ERROR] GPU index must be between 0 and %d (instead of %d)'')
               else Inr (exeTy, exeIdx)))"

subsection \<open>\<open>ParseTransfers\<close>\<close>

text \<open>
  The first loop blanks round brackets and the characters of \<open>->\<close> from index 1 on.
  (For an empty line the loop starts behind the terminator; the string the stream is
  then built from is empty all the same.)
\<close>

definition blankSeparators :: "string \<Rightarrow> string" where
  "blankSeparators line =
     (case line of
        [] \<Rightarrow> []
      | c # cs \<Rightarrow> c # map (\<lambda>x. if x \<in> set ''()->'' then CHR '' '' else x) cs)"

text \<open>A default-constructed \<open>Transfer\<close>; its scalar members, uninitialised in C++, read 0.\<close>

definition newTransfer :: "('t::zero) Transfer" where
  "newTransfer =
     \<lparr>transferIndex = 0, exeType = EXE_CPU, exeIndex = 0, numSubExecs = 0, numBytes = 0,
      numBytesActual = 0, numSrcs = 0, numDsts = 0, srcType = [], srcIndex = [],
      dstType = [], dstIndex = [], srcMem = [], dstMem = [], subExecParam = [],
      subExecIdx = [], subExecParamGpuPtr = 0, transferTime = 0, perIterationTime = [],
      perIterationCUs = []\<rparr>"

text \<open>\<open>iss >> srcMem >> exeMem >> dstMem\<close>.\<close>

definition streamTriplet :: "string \<Rightarrow> ((string \<times> string \<times> string) \<times> string) option" where
  "streamTriplet s =
     (case streamToken s of
        None \<Rightarrow> None
      | Some (srcTok, s1) \<Rightarrow>
          (case streamToken s1 of
             None \<Rightarrow> None
           | Some (exeTok, s2) \<Rightarrow>
               (case streamToken s2 of
                  None \<Rightarrow> None
                | Some (dstTok, s3) \<Rightarrow> Some ((srcTok, exeTok, dstTok), s3))))"

text \<open>
  The unit suffix of an advanced-mode byte count; \<open>numBytes\<close> is a \<open>size_t\<close>, so the
  product wraps at \<open>2^64\<close>.
\<close>

definition applyUnits :: "char \<Rightarrow> nat \<Rightarrow> nat" where
  "applyUnits units nb =
     (if toupper units = CHR ''K'' then (nb * 1024) mod 2 ^ 64
      else if toupper units = CHR ''M'' then (nb * (1024 * 1024)) mod 2 ^ 64
      else if toupper units = CHR ''G'' then (nb * (1024 * 1024 * 1024)) mod 2 ^ 64
      else nb)"

text \<open>
  What one pass of the \<open>for\<close> loop reads from the stream: the three tokens, and in
  advanced mode the sub-executor count and the byte count as well.  The loop carries
  \<open>numSubExecs\<close>, \<open>numBytes\<close> and the unread rest of the stream.
\<close>

definition readTransferFields ::
  "bool \<Rightarrow> int \<times> nat \<times> string \<Rightarrow> error + ((string \<times> string \<times> string) \<times> (int \<times> nat \<times> string))" where
  "readTransferFields advancedMode st =
     (case st of (nSubExecs, nBytes, s) \<Rightarrow>
        if \<not> advancedMode then
          (case streamTriplet s of
             None \<Rightarrow> Inl (Fatal ''Parsing error: Unable to read valid Transfer %d (SRC EXE DST) triplet'')
           | Some (toks, s') \<Rightarrow> Inr (toks, (nSubExecs, nBytes, s')))
        else
          (case streamTriplet s of
             None \<Rightarrow> Inl (Fatal ''Parsing error: Unable to read valid Transfer %d (SRC EXE DST #CU #Bytes) tuple'')
           | Some (toks, s1) \<Rightarrow>
               (case streamInt s1 of
                  None \<Rightarrow> Inl (Fatal ''Parsing error: Unable to read valid Transfer %d (SRC EXE DST #CU #Bytes) tuple'')
                | Some (nSubExecs', s2) \<Rightarrow>
                    (case streamToken s2 of
                       None \<Rightarrow> Inl (Fatal ''Parsing error: Unable to read valid Transfer %d (SRC EXE DST #CU #Bytes) tuple'')
                     | Some (numBytesToken, s3) \<Rightarrow>
                         (case scanULong numBytesToken of
                            None \<Rightarrow> Inl (Fatal ''Parsing error: '%s' is not a valid expression of numBytes for Transfer %d'')
                          | Some nb \<Rightarrow>
                              Inr (toks, (nSubExecs', applyUnits (last numBytesToken) nb, s3)))))))"

text \<open>The rest of the loop body: the three tokens are parsed and checked, the Transfer is built.\<close>

definition buildTransfer ::
  "CharTables \<Rightarrow> int \<Rightarrow> int \<Rightarrow> string \<times> string \<times> string \<Rightarrow> int \<Rightarrow> nat \<Rightarrow> error + ('t::zero) Transfer" where
  "buildTransfer tabs numCpus numGpus toks nSubExecs nBytes =
     (case toks of (srcTok, exeTok, dstTok) \<Rightarrow>
        (case ParseMemType tabs srcTok numCpus numGpus of
           Inl e \<Rightarrow> Inl e
         | Inr (srcTypes, srcIndices) \<Rightarrow>
             (case ParseMemType tabs dstTok numCpus numGpus of
                Inl e \<Rightarrow> Inl e
              | Inr (dstTypes, dstIndices) \<Rightarrow>
                  (case ParseExeType tabs exeTok numCpus numGpus of
                     Inl e \<Rightarrow> Inl e
                   | Inr (exeTy, exeIdx) \<Rightarrow>
                       if length srcTypes = 0 \<and> length dstTypes = 0
                       then Inl (Fatal ''[ERROR] Transfer must have at least one src or dst'')
                       else if exeTy = EXE_GPU_DMA \<and> (length srcTypes > 1 \<or> length dstTypes > 1)
                       then Inl (Fatal ''[ERROR] GPU DMA executor can only be used for single source / single dst Transfers'')
                       else Inr (newTransfer
                                  \<lparr>srcType := srcTypes, srcIndex := srcIndices,
                                   dstType := dstTypes, dstIndex := dstIndices,
                                   exeType := exeTy, exeIndex := exeIdx,
                                   numSrcs := length srcTypes, numDsts := length dstTypes,
                                   numSubExecs := nSubExecs, numBytes := nBytes\<rparr>)))))"

text \<open>The \<open>for\<close> loop, by the number of Transfers still to read.\<close>

fun ParseTransfersLoop ::
  "CharTables \<Rightarrow> int \<Rightarrow> int \<Rightarrow> bool \<Rightarrow> nat \<Rightarrow> int \<times> nat \<times> string \<Rightarrow> error + ('t::zero) Transfer list" where
  "ParseTransfersLoop tabs numCpus numGpus advancedMode 0 st = Inr []"
| "ParseTransfersLoop tabs numCpus numGpus advancedMode (Suc k) st =
     (case readTransferFields advancedMode st of
        Inl e \<Rightarrow> Inl e
      | Inr (toks, st') \<Rightarrow>
          (case buildTransfer tabs numCpus numGpus toks (fst st') (fst (snd st')) of
             Inl e \<Rightarrow> Inl e
           | Inr transfer \<Rightarrow>
               (case ParseTransfersLoop tabs numCpus numGpus advancedMode k st' of
                  Inl e \<Rightarrow> Inl e
                | Inr transfers \<Rightarrow> Inr (transfer # transfers))))"

text \<open>
  \<open>abs\<close> of an \<open>int\<close>.  \<open>abs(INT_MIN)\<close> overflows, which the language leaves undefined;
  the compiled program returns \<open>INT_MIN\<close>, and so does the model: the loop over the
  Transfers of the line then makes no pass.
\<close>

definition abs_int :: "int \<Rightarrow> int" where
  "abs_int n = (if n = - (2 ^ 31) then n else \<bar>n\<bar>)"

definition ParseTransfers ::
  "CharTables \<Rightarrow> string \<Rightarrow> int \<Rightarrow> int \<Rightarrow> error + ('t::zero) Transfer list" where
  "ParseTransfers tabs line numCpus numGpus =
     (case streamInt (blankSeparators line) of
        None \<Rightarrow> Inr []
      | Some (numTransfers, s) \<Rightarrow>
          (let advancedMode = (numTransfers < 0) in
           if \<not> advancedMode then
             (case streamInt s of
                None \<Rightarrow> Inl (Fatal ''Parsing error: Number of blocks to use (%d) must be greater than 0'')
              | Some (nSubExecs, s') \<Rightarrow>
                  if nSubExecs \<le> 0
                  then Inl (Fatal ''Parsing error: Number of blocks to use (%d) must be greater than 0'')
                  else ParseTransfersLoop tabs numCpus numGpus advancedMode
                         (nat (abs_int numTransfers)) (nSubExecs, 0, s'))
           else ParseTransfersLoop tabs numCpus numGpus advancedMode
                  (nat (abs_int numTransfers)) (0, 0, s)))"

subsection \<open>The callers in \<open>main\<close>\<close>

text \<open>
  The run-wide byte count of the command line (\<open>argv[2]\<close>, if given):
  \<open>atoll\<close>, the unit suffix, and the test that ends the process when the count is
  not a multiple of 4.  \<open>DEFAULT_BYTES_PER_TRANSFER\<close> is a constant of the header.
  The unit is the last character of the argument; for an empty argument the program
  reads the byte in front of the string, and the model leaves the unit unspecified.
\<close>

definition mainUnits :: "char \<Rightarrow> nat \<Rightarrow> nat" where
  "mainUnits units nb =
     (if units = CHR ''K'' \<or> units = CHR ''k'' then (nb * 1024) mod 2 ^ 64
      else if units = CHR ''M'' \<or> units = CHR ''m'' then (nb * (1024 * 1024)) mod 2 ^ 64
      else if units = CHR ''G'' \<or> units = CHR ''g'' then (nb * (1024 * 1024 * 1024)) mod 2 ^ 64
      else nb)"

definition mainNumBytes :: "nat \<Rightarrow> string option \<Rightarrow> error + nat" where
  "mainNumBytes DEFAULT_BYTES_PER_TRANSFER arg2 =
     (let numBytesPerTransfer =
            (case arg2 of
               None \<Rightarrow> DEFAULT_BYTES_PER_TRANSFER
             | Some a \<Rightarrow> mainUnits (last a) (nat (atoll a mod 2 ^ 64)))
      in if numBytesPerTransfer mod 4 \<noteq> 0
         then Inl (Fatal ''[ERROR] numBytesPerTransfer (%lu) must be a multiple of 4'')
         else Inr numBytesPerTransfer)"

text \<open>
  What the loop over the lines of the configuration file does with one line: the parser
  ends the process, or the line is skipped and the loop goes on to the next one, or
  \<open>ExecuteTransfers\<close> is called on the Transfers read.
\<close>

datatype 't lineAction = Exits error | NextLine | Executes "'t Transfer list"

definition mainLine ::
  "CharTables \<Rightarrow> string \<Rightarrow> int \<Rightarrow> int \<Rightarrow> ('t::zero) lineAction" where
  "mainLine tabs line numCpus numGpus =
     (case ParseTransfers tabs line numCpus numGpus of
        Inl e \<Rightarrow> Exits e
      | Inr transfers \<Rightarrow> if transfers = [] then NextLine else Executes transfers)"

text \<open>
  The first thing \<open>ExecuteTransfers\<close> does with a Transfer (line 252): the number of
  bytes it will move is the Transfer's own byte count if it has one, and otherwise the
  run-wide element count \<open>N\<close> times the size of a float.
\<close>

definition setNumBytesActual :: "nat \<Rightarrow> 't Transfer \<Rightarrow> 't Transfer" where
  "setNumBytesActual nElems transfer =
     transfer\<lparr>numBytesActual :=
                (if numBytes transfer \<noteq> 0 then numBytes transfer else (nElems * 4) mod 2 ^ 64)\<rparr>"

text \<open>
  A table for the two header functions, used where the parser is run on a concrete
  line: the letters \<open>C G B F U N\<close> for memory and \<open>C G D\<close> for executors, in either
  case.
\<close>

definition exampleTables :: CharTables where
  "exampleTables =
     \<lparr>CharToMemType = (\<lambda>c.
        if toupper c = CHR ''C'' then Inr MEM_CPU
        else if toupper c = CHR ''G'' then Inr MEM_GPU
        else if toupper c = CHR ''B'' then Inr MEM_CPU_FINE
        else if toupper c = CHR ''F'' then Inr MEM_GPU_FINE
        else if toupper c = CHR ''U'' then Inr MEM_CPU_UNPINNED
        else if toupper c = CHR ''N'' then Inr MEM_NULL
        else Inl (Fatal ''[ERROR] Unexpected memory type (%c)'')),
      CharToExeType = (\<lambda>c.
        if toupper c = CHR ''C'' then Inr EXE_CPU
        else if toupper c = CHR ''G'' then Inr EXE_GPU_GFX
        else if toupper c = CHR ''D'' then Inr EXE_GPU_DMA
        else Inl (Fatal ''[ERROR] Unexpected executor type (%c)''))\<rparr>"

section \<open>The memory resource manager: \<open>AllocateMemory\<close>\<close>

text \<open>
  The answers of the HIP runtime, of libnuma and of the kernel are parameters: an
  allocator returns a pointer or fails (\<open>None\<close>), the other calls succeed or fail.
  \<open>NVCC\<close> tells whether the program was compiled with \<open>__NVCC__\<close> defined.
  \<open>hipMemcpy\<close> is asked with the address it copies from and the number of bytes;
  \<open>hipGetDeviceCount\<close> and \<open>hipDeviceGetPCIBusId\<close> return what they store through
  their first argument; \<open>numa_mems_allowed node\<close> is the bit of \<open>node\<close> in the mask
  that \<open>numa_get_mems_allowed\<close> returns; \<open>USE_PCIE_INDEX\<close> is \<open>atoi\<close> of the environment
  variable of that name, 0 when it is not set.
\<close>

record Runtime =
  NVCC :: bool
  hipHostMalloc :: "MemType \<Rightarrow> nat \<Rightarrow> nat option"
  hipMalloc :: "int \<Rightarrow> nat \<Rightarrow> nat option"
  hipExtMallocWithFlags :: "int \<Rightarrow> nat \<Rightarrow> nat option"
  numa_alloc_onnode :: "nat \<Rightarrow> int \<Rightarrow> nat"
  hipSetDevice :: "int \<Rightarrow> bool"
  hipGetDeviceProperties :: "int \<Rightarrow> bool"
  hipMemset :: "nat \<Rightarrow> nat \<Rightarrow> bool"
  hipDeviceSynchronize :: bool
  getpagesize :: nat
  move_pages :: "nat \<Rightarrow> nat \<Rightarrow> int \<times> int list"
  hipMemcpy :: "nat \<Rightarrow> nat \<Rightarrow> bool"
  hipGetDeviceCount :: "nat option"
  hipDeviceGetPCIBusId :: "int \<Rightarrow> string option"
  numa_max_node :: int
  numa_mems_allowed :: "int \<Rightarrow> bool"
  USE_PCIE_INDEX :: int

text \<open>
  Modelled from the spec: the macro \<open>HIP_CALL\<close> (TransferBench.hpp, absent).  Section 7
  of the specification makes a failure of the native allocator fatal, and internal
  components signal failure by aborting the process with a message.
\<close>

definition HIP_CALL :: "bool \<Rightarrow> (error + 'a) \<Rightarrow> error + 'a" where
  "HIP_CALL ok continue = (if ok then continue else Inl (Fatal ''HIP_CALL''))"

text \<open>\<open>CheckPages\<close>: \<open>None\<close> when every page is on the target node.\<close>

fun CheckPagesLoop :: "int list \<Rightarrow> int \<Rightarrow> nat \<Rightarrow> error + nat" where
  "CheckPagesLoop [] targetId mistakeCount = Inr mistakeCount"
| "CheckPagesLoop (st # status) targetId mistakeCount =
     (if st < 0 then Inl (Fatal ''[ERROR] Unexpected page status %d for page %d'')
      else CheckPagesLoop status targetId (if st \<noteq> targetId then mistakeCount + 1 else mistakeCount))"

definition CheckPages :: "Runtime \<Rightarrow> nat \<Rightarrow> nat \<Rightarrow> int \<Rightarrow> error option" where
  "CheckPages rt array nBytes targetId =
     (let pageSize = getpagesize rt;
          numPages = (nBytes + pageSize - 1) div pageSize;
          (retCode, status) = move_pages rt array numPages
      in if retCode \<noteq> 0 then Some (Fatal ''[ERROR] Unable to collect page info'')
         else (case CheckPagesLoop (take numPages status) targetId 0 of
                 Inl e \<Rightarrow> Some e
               | Inr mistakeCount \<Rightarrow>
                   if mistakeCount > 0
                   then Some (Fatal ''[ERROR] %lu out of %lu pages for memory allocation were not on NUMA node %d'')
                   else None))"

text \<open>
  \<open>AllocateMemory\<close> returns the pointer it stores through \<open>memPtr\<close>.  Zero-filling
  the block changes no value this model holds; \<open>memset\<close> through a null pointer (what
  \<open>numa_alloc_onnode\<close> returns when it fails) is a trap.
\<close>

definition AllocateMemory :: "Runtime \<Rightarrow> MemType \<Rightarrow> int \<Rightarrow> nat \<Rightarrow> error + nat" where
  "AllocateMemory rt memType devIndex nBytes =
     (if nBytes = 0 then Inl (Fatal ''[ERROR] Unable to allocate 0 bytes'')
      else if IsCpuMem memType then
        (case (if memType = MEM_CPU_FINE then
                 (if NVCC rt
                  then Inl (Fatal ''[ERROR] Fine-grained CPU memory not supported on NVIDIA platform'')
                  else (case hipHostMalloc rt memType nBytes of
                          None \<Rightarrow> Inl (Fatal ''HIP_CALL'')
                        | Some p \<Rightarrow> Inr p))
               else if memType = MEM_CPU then
                 (case hipHostMalloc rt memType nBytes of
                    None \<Rightarrow> Inl (Fatal ''[ERROR] Unable to allocate non-coherent host memory on NUMA node %d'')
                  | Some p \<Rightarrow> Inr p)
               else if memType = MEM_CPU_UNPINNED then Inr (numa_alloc_onnode rt nBytes devIndex)
               else Inr 0)
         of Inl e \<Rightarrow> Inl e
          | Inr p \<Rightarrow>
              if p = 0 then Inl (Trap ''memset through a null pointer'')
              else (case CheckPages rt p nBytes devIndex of
                      Some e \<Rightarrow> Inl e
                    | None \<Rightarrow> Inr p))
      else if IsGpuMem memType then
        (case (if memType = MEM_GPU then
                 HIP_CALL (hipSetDevice rt devIndex)
                   (case hipMalloc rt devIndex nBytes of
                      None \<Rightarrow> Inl (Fatal ''HIP_CALL'')
                    | Some p \<Rightarrow> Inr p)
               else if memType = MEM_GPU_FINE then
                 (if NVCC rt
                  then Inl (Fatal ''[ERROR] Fine-grained GPU memory not supported on NVIDIA platform'')
                  else HIP_CALL (hipSetDevice rt devIndex)
                         (HIP_CALL (hipGetDeviceProperties rt 0)
                            (case hipExtMallocWithFlags rt devIndex nBytes of
                               None \<Rightarrow> Inl (Fatal ''HIP_CALL'')
                             | Some p \<Rightarrow> Inr p)))
               else Inr 0)
         of Inl e \<Rightarrow> Inl e
          | Inr p \<Rightarrow> HIP_CALL (hipMemset rt p nBytes) (HIP_CALL (hipDeviceSynchronize rt) (Inr p)))
      else Inl (Fatal ''[ERROR] Unsupported memory type %d''))"

section \<open>The device index table: \<open>RemappedIndex\<close>\<close>

text \<open>
  \<open>RemappedIndex\<close> keeps two static vectors and fills each of them when it is called
  while the vector is empty.  \<open>Remapping\<close> holds the two vectors as they stand at the
  call.  The model returns the index only: a vector filled by this call is filled again,
  from the same answers, by the next one.
\<close>

record Remapping =
  remappingCpu :: "int list"
  remappingGpu :: "int list"

text \<open>
  \<open>std::string\<close> compares byte by byte, as unsigned values, and a proper prefix comes
  first; \<open>std::pair\<close> compares the first components and then the second ones.
\<close>

fun stringLess :: "string \<Rightarrow> string \<Rightarrow> bool" where
  "stringLess [] [] = False"
| "stringLess [] (b # bs) = True"
| "stringLess (a # cs) [] = False"
| "stringLess (a # cs) (b # bs) = ((of_char a :: nat) < of_char b \<or> (a = b \<and> stringLess cs bs))"

definition pairLess :: "string \<times> int \<Rightarrow> string \<times> int \<Rightarrow> bool" where
  "pairLess p q = (stringLess (fst p) (fst q) \<or> (fst p = fst q \<and> snd p < snd q))"

text \<open>
  \<open>std::sort\<close> of the pairs of bus id and device: the pairs differ in their second
  components, so there is one sorted order, and insertion finds it.
\<close>

fun insertPair :: "string \<times> int \<Rightarrow> (string \<times> int) list \<Rightarrow> (string \<times> int) list" where
  "insertPair p [] = [p]"
| "insertPair p (q # qs) = (if pairLess p q then p # q # qs else q # insertPair p qs)"

definition sortMapping :: "(string \<times> int) list \<Rightarrow> (string \<times> int) list" where
  "sortMapping mapping = foldr insertPair mapping []"

fun collectBusIds :: "Runtime \<Rightarrow> nat list \<Rightarrow> error + (string \<times> int) list" where
  "collectBusIds rt [] = Inr []"
| "collectBusIds rt (i # rest) =
     (case hipDeviceGetPCIBusId rt (int i) of
        None \<Rightarrow> Inl (Fatal ''HIP_CALL'')
      | Some pciBusId \<Rightarrow>
          (case collectBusIds rt rest of
             Inl e \<Rightarrow> Inl e
           | Inr mapping \<Rightarrow> Inr ((pciBusId, int i) # mapping)))"

definition buildRemappingCpu :: "Runtime \<Rightarrow> int list" where
  "buildRemappingCpu rt = filter (numa_mems_allowed rt) [0..numa_max_node rt]"

definition buildRemappingGpu :: "Runtime \<Rightarrow> error + int list" where
  "buildRemappingGpu rt =
     (case hipGetDeviceCount rt of
        None \<Rightarrow> Inl (Fatal ''HIP_CALL'')
      | Some numGpuDevices \<Rightarrow>
          if USE_PCIE_INDEX rt = 0 then Inr (map int [0..<numGpuDevices])
          else (case collectBusIds rt [0..<numGpuDevices] of
                  Inl e \<Rightarrow> Inl e
                | Inr mapping \<Rightarrow> Inr (map snd (sortMapping mapping))))"

text \<open>An index outside the vector it is looked up in is a trap.\<close>

definition lookupIndex :: "int list \<Rightarrow> int \<Rightarrow> error + int" where
  "lookupIndex table origIdx =
     (if 0 \<le> origIdx \<and> nat origIdx < length table then Inr (table ! nat origIdx)
      else Inl (Trap ''remapping[origIdx] outside the vector''))"

definition RemappedIndex :: "Runtime \<Rightarrow> Remapping \<Rightarrow> int \<Rightarrow> bool \<Rightarrow> error + int" where
  "RemappedIndex rt st origIdx isCpuType =
     (let cpuTable = (if remappingCpu st = [] then buildRemappingCpu rt else remappingCpu st)
      in case (if remappingGpu st = [] then buildRemappingGpu rt else Inr (remappingGpu st)) of
           Inl e \<Rightarrow> Inl e
         | Inr gpuTable \<Rightarrow> lookupIndex (if isCpuType then cpuTable else gpuTable) origIdx)"

section \<open>The validator: \<open>Transfer::ValidateDst\<close>\<close>

text \<open>
  The validator is modelled by the trace of what it does: \<open>Compared d i\<close> is one
  evaluation of \<open>reference[i] != output[i]\<close> for destination \<open>d\<close>, and \<open>Mismatch\<close> is
  the report printed on a mismatch, with what it prints: the Transfer's index, the
  destination and the element index, the values of the sources at that index, the
  expected value and the value found (both are printed as numbers and as bit patterns).
  \<open>mem\<close> gives the float stored at an element address, on the host or on a device; a
  \<open>hipMemcpy\<close> that succeeds hands over the floats stored at the address it copies
  from.  Every device call is wrapped in \<open>HIP_CALL\<close> and ends the process when it fails,
  whatever \<open>continueOnError\<close> says.  Without \<open>__NVCC__\<close> the report also prints the
  source and destination floats read in place; they are the floats \<open>mem\<close> gives.
\<close>

datatype 'f event =
    Compared nat nat
  | Mismatch int nat nat "'f list" 'f 'f

fun isCompared :: "'f event \<Rightarrow> bool" where
  "isCompared (Compared d i) = True"
| "isCompared (Mismatch ti d i srcVals expected actual) = False"

text \<open>The exit taken on a mismatch when \<open>continueOnError\<close> is off.\<close>

definition mismatchExit :: error where
  "mismatchExit = Fatal ''[ERROR] Failed Transfer details: #%d: %s -> [%c%d:%d] -> %s''"

text \<open>
  The loop over the sources inside the report of a mismatch at element \<open>i\<close>: one
  \<open>hipMemcpy\<close> of \<open>sizeof(float)\<close> bytes for every source, whatever its memory type.
\<close>

fun readSrcVals ::
  "Runtime \<Rightarrow> (nat \<Rightarrow> 'f) \<Rightarrow> 't Transfer \<Rightarrow> nat \<Rightarrow> nat \<Rightarrow> nat list \<Rightarrow> error + 'f list" where
  "readSrcVals rt mem t initOffset i [] = Inr []"
| "readSrcVals rt mem t initOffset i (srcIdx # rest) =
     HIP_CALL (hipMemcpy rt (srcMem t ! srcIdx + initOffset + i) 4)
       (case readSrcVals rt mem t initOffset i rest of
          Inl e \<Rightarrow> Inl e
        | Inr srcVals \<Rightarrow> Inr (mem (srcMem t ! srcIdx + initOffset + i) # srcVals))"

text \<open>The inner loop over the elements of destination \<open>dstIdx\<close>, by the indices still to visit.\<close>

fun compareElems ::
  "Runtime \<Rightarrow> 'f Header \<Rightarrow> 'f EnvVars \<Rightarrow> (nat \<Rightarrow> 'f) \<Rightarrow> 't Transfer \<Rightarrow> 'f list \<Rightarrow> nat \<Rightarrow> nat
     \<Rightarrow> nat list \<Rightarrow> error + 'f event list" where
  "compareElems rt h ev mem t reference initOffset dstIdx [] = Inr []"
| "compareElems rt h ev mem t reference initOffset dstIdx (i # rest) =
     (let output = mem (dstMem t ! dstIdx + initOffset + i) in
      if floatNe h (reference ! i) output then
        (case readSrcVals rt mem t initOffset i [0..<Transfer.numSrcs t] of
           Inl e \<Rightarrow> Inl e
         | Inr srcVals \<Rightarrow>
             if \<not> continueOnError ev then Inl mismatchExit
             else Inr [Compared dstIdx i,
                       Mismatch (transferIndex t) dstIdx i srcVals (reference ! i) output])
      else (case compareElems rt h ev mem t reference initOffset dstIdx rest of
              Inl e \<Rightarrow> Inl e
            | Inr evs \<Rightarrow> Inr (Compared dstIdx i # evs)))"

text \<open>
  How the loop over the destinations gets at \<open>output\<close>: a host destination, or any
  destination when \<open>validateDirect\<close> is set, is read in place; a device destination is
  copied into \<open>hostBuffer\<close> first, through three device calls.
\<close>

definition copyToHost ::
  "Runtime \<Rightarrow> Remapping \<Rightarrow> 'f EnvVars \<Rightarrow> 't Transfer \<Rightarrow> nat \<Rightarrow> nat \<Rightarrow> error + unit" where
  "copyToHost rt st ev t initOffset dstIdx =
     (if IsCpuMem (dstType t ! dstIdx) \<or> validateDirect ev then Inr ()
      else (case RemappedIndex rt st (dstIndex t ! dstIdx) False of
              Inl e \<Rightarrow> Inl e
            | Inr deviceIdx \<Rightarrow>
                HIP_CALL (hipSetDevice rt deviceIdx)
                  (HIP_CALL (hipMemcpy rt (dstMem t ! dstIdx + initOffset) (numBytesActual t))
                     (HIP_CALL (hipDeviceSynchronize rt) (Inr ())))))"

text \<open>The outer loop over the destinations.\<close>

fun validateDsts ::
  "Runtime \<Rightarrow> Remapping \<Rightarrow> 'f Header \<Rightarrow> 'f EnvVars \<Rightarrow> (nat \<Rightarrow> 'f) \<Rightarrow> 't Transfer \<Rightarrow> 'f list
     \<Rightarrow> nat \<Rightarrow> nat \<Rightarrow> nat list \<Rightarrow> error + 'f event list" where
  "validateDsts rt st h ev mem t reference initOffset nElems [] = Inr []"
| "validateDsts rt st h ev mem t reference initOffset nElems (dstIdx # rest) =
     (case copyToHost rt st ev t initOffset dstIdx of
        Inl e \<Rightarrow> Inl e
      | Inr u \<Rightarrow>
          (case compareElems rt h ev mem t reference initOffset dstIdx [0..<nElems] of
             Inl e \<Rightarrow> Inl e
           | Inr evs \<Rightarrow>
               (case validateDsts rt st h ev mem t reference initOffset nElems rest of
                  Inl e \<Rightarrow> Inl e
                | Inr evs' \<Rightarrow> Inr (evs @ evs'))))"

definition ValidateDst ::
  "Runtime \<Rightarrow> Remapping \<Rightarrow> 'f Header \<Rightarrow> 'f EnvVars \<Rightarrow> (nat \<Rightarrow> 'f) \<Rightarrow> 't Transfer
     \<Rightarrow> error + ('f::{zero,plus}) event list" where
  "ValidateDst rt st h ev mem t =
     (if Transfer.numDsts t = 0 then Inr []
      else
        (let nElems = numBytesActual t div 4;
             initOffset = byteOffset ev div 4;
             reference = PrepareReference h ev t (replicate nElems 0) (-1)
         in validateDsts rt st h ev mem t reference initOffset nElems [0..<Transfer.numDsts t]))"

text \<open>
  What the validator does for one destination in continue-on-error mode, in closed form:
  it compares the elements before the first mismatch and the mismatching one, reports
  it, and leaves the rest of that destination alone.
\<close>

definition dstTrace ::
  "'f Header \<Rightarrow> (nat \<Rightarrow> 'f) \<Rightarrow> 't Transfer \<Rightarrow> 'f list \<Rightarrow> nat \<Rightarrow> nat \<Rightarrow> nat \<Rightarrow> 'f event list" where
  "dstTrace h mem t reference initOffset nElems dstIdx =
     (let differs = (\<lambda>i. floatNe h (reference ! i) (mem (dstMem t ! dstIdx + initOffset + i)))
      in case find differs [0..<nElems] of
           None \<Rightarrow> map (Compared dstIdx) [0..<nElems]
         | Some k \<Rightarrow>
             map (Compared dstIdx) [0..<Suc k] @
             [Mismatch (transferIndex t) dstIdx k
                (map (\<lambda>srcIdx. mem (srcMem t ! srcIdx + initOffset + k)) [0..<Transfer.numSrcs t])
                (reference ! k) (mem (dstMem t ! dstIdx + initOffset + k))])"

text \<open>
  The device calls the validator makes for one destination all succeed: the three calls
  that copy a device destination to the host, and, when the destination has a
  mismatching element, the copies of the source values at the first such element.
\<close>

definition dstCallsSucceed ::
  "Runtime \<Rightarrow> Remapping \<Rightarrow> 'f Header \<Rightarrow> 'f EnvVars \<Rightarrow> (nat \<Rightarrow> 'f) \<Rightarrow> 't Transfer \<Rightarrow> 'f list
     \<Rightarrow> nat \<Rightarrow> nat \<Rightarrow> nat \<Rightarrow> bool" where
  "dstCallsSucceed rt st h ev mem t reference initOffset nElems dstIdx =
     (copyToHost rt st ev t initOffset dstIdx = Inr () \<and>
      (case find (\<lambda>i. floatNe h (reference ! i) (mem (dstMem t ! dstIdx + initOffset + i))) [0..<nElems] of
         None \<Rightarrow> True
       | Some k \<Rightarrow>
           list_all (\<lambda>srcIdx. hipMemcpy rt (srcMem t ! srcIdx + initOffset + k) 4)
             [0..<Transfer.numSrcs t]))"

definition deviceCallsSucceed ::
  "Runtime \<Rightarrow> Remapping \<Rightarrow> 'f Header \<Rightarrow> 'f EnvVars \<Rightarrow> (nat \<Rightarrow> 'f) \<Rightarrow> ('f::{zero,plus}) Transfer
     \<Rightarrow> bool" where
  "deviceCallsSucceed rt st h ev mem t =
     list_all (dstCallsSucceed rt st h ev mem t
                 (PrepareReference h ev t (replicate (numBytesActual t div 4) 0) (-1))
                 (byteOffset ev div 4) (numBytesActual t div 4))
       [0..<Transfer.numDsts t]"

text \<open>
  The reading of the claim that the validator makes no further comparison for the
  Transfer once it has reported a mismatch.
\<close>

fun stopsAfterMismatch :: "'f event list \<Rightarrow> bool" where
  "stopsAfterMismatch [] = True"
| "stopsAfterMismatch (Compared d i # evs) = stopsAfterMismatch evs"
| "stopsAfterMismatch (Mismatch ti d i srcVals expected actual # evs) =
     list_all (\<lambda>e. \<not> isCompared e) evs"

text \<open>
  A header, a Transfer with two destinations of one element each, and a memory in which
  both destinations hold 7 where the reference holds 1.
\<close>

definition exampleHeader :: "int Header" where
  "exampleHeader =
     \<lparr>PrepSrcValue = (\<lambda>srcIdx i. (srcIdx + 1) * (int i + 1)),
      MEMSET_CHAR = 0x75,
      floatOfBytes = (\<lambda>bs. foldr (\<lambda>b acc. uint b + 256 * acc) bs 0),
      floatNe = (\<lambda>a b. a \<noteq> b)\<rparr>"

definition twoDstTransfer :: "int Transfer" where
  "twoDstTransfer =
     \<lparr>transferIndex = 0, exeType = EXE_CPU, exeIndex = 0, numSubExecs = 1, numBytes = 0,
      numBytesActual = 4, numSrcs = 1, numDsts = 2, srcType = [MEM_CPU], srcIndex = [0],
      dstType = [MEM_CPU, MEM_CPU], dstIndex = [0, 0], srcMem = [1000], dstMem = [2000, 3000],
      subExecParam = [], subExecIdx = [], subExecParamGpuPtr = 0, transferTime = 0,
      perIterationTime = [], perIterationCUs = []\<rparr>"

definition exampleMem :: "nat \<Rightarrow> int" where
  "exampleMem a = (if a = 1000 then 1 else 7)"

text \<open>
  A runtime in which every call succeeds, with two devices and no remapping; the same
  runtime with a \<open>hipMemcpy\<close> that fails; the vectors of \<open>RemappedIndex\<close> as its first
  call leaves them there; and the Transfer above with its first destination on device 1.
\<close>

definition exampleRuntime :: Runtime where
  "exampleRuntime =
     \<lparr>NVCC = False, hipHostMalloc = (\<lambda>memType nBytes. Some 4096),
      hipMalloc = (\<lambda>devIndex nBytes. Some 4096),
      hipExtMallocWithFlags = (\<lambda>devIndex nBytes. Some 4096),
      numa_alloc_onnode = (\<lambda>nBytes node. 4096), hipSetDevice = (\<lambda>deviceIdx. True),
      hipGetDeviceProperties = (\<lambda>deviceIdx. True), hipMemset = (\<lambda>p nBytes. True),
      hipDeviceSynchronize = True, getpagesize = 4096,
      move_pages = (\<lambda>p numPages. (0, replicate numPages 0)),
      hipMemcpy = (\<lambda>p nBytes. True), hipGetDeviceCount = Some 2,
      hipDeviceGetPCIBusId = (\<lambda>deviceIdx. Some ''0000:03:00.0''), numa_max_node = 0,
      numa_mems_allowed = (\<lambda>node. True), USE_PCIE_INDEX = 0\<rparr>"

definition failingRuntime :: Runtime where
  "failingRuntime = exampleRuntime\<lparr>hipMemcpy := (\<lambda>p nBytes. False)\<rparr>"

definition exampleRemapping :: Remapping where
  "exampleRemapping = \<lparr>remappingCpu = [0], remappingGpu = [0, 1]\<rparr>"

definition deviceDstTransfer :: "int Transfer" where
  "deviceDstTransfer = twoDstTransfer\<lparr>dstType := [MEM_GPU, MEM_CPU], dstIndex := [1, 0]\<rparr>"
section \<open>The dispatcher: \<open>RunTransfer\<close>\<close>

text \<open>
  An executor group.  Its Transfers are held by value: every Transfer belongs to a
  single group, and nothing else writes to it while the group runs.  The device-resident
  parameter array is \<open>subExecParamGpu\<close>; a Transfer's \<open>subExecParamGpuPtr\<close> is an index
  into it.
\<close>

record 't ExecutorInfo =
  transfers :: "'t Transfer list"
  totalSubExecs :: int
  totalBytes :: nat
  totalTime :: 't
  subExecParamGpu :: "SubExecParam list"

text \<open>
  What the hardware and the clocks answer during one call of \<open>RunTransfer\<close>: whether the
  HIP calls and \<open>numa_run_on_node\<close> succeed, the parameter array as the kernel leaves
  it (with the cycle stamps and hardware ids it writes), the elapsed time between the
  two events, the wall-clock time of the host threads, and the floating-point quotient
  \<open>(maxStopCycle - minStartCycle) / (double) wallClockRate\<close> as a function of the
  difference of cycles.  Times are values of an arbitrary type \<open>'t\<close> with a \<open>+\<close> of which no
  law is assumed.  The cycle stamps are \<open>long long\<close>, read here as integers.
\<close>

record 't Launch =
  hipOk :: bool
  numaRunOnNodeOk :: bool
  kernelWrites :: "SubExecParam list \<Rightarrow> nat \<Rightarrow> int \<Rightarrow> SubExecParam list"
  gpuDeltaMsec :: 't
  cpuDeltaMsec :: 't
  cyclesToMs :: "int \<Rightarrow> 't"

definition GetId :: "nat \<Rightarrow> nat" where
  "GetId hw =
     (let shId = (hw div 2 ^ 12) mod 2;
          cuId = (hw div 2 ^ 8) mod 16;
          seId = (hw div 2 ^ 13) mod 4
      in shId * 2 ^ 5 + cuId * 2 ^ 2 + seId)"

definition LLONG_MAX :: int where
  "LLONG_MAX = 2 ^ 63 - 1"

definition LLONG_MIN :: int where
  "LLONG_MIN = - (2 ^ 63)"

text \<open>
  A \<open>long long\<close> difference that leaves the range of the type overflows, which the
  language leaves undefined; the compiled program wraps around, and so does the model.
\<close>

definition wrapLongLong :: "int \<Rightarrow> int" where
  "wrapLongLong x = (x + 2 ^ 63) mod 2 ^ 64 - 2 ^ 63"

text \<open>
  The body of the loop over \<open>exeInfo.transfers\<close> in combined-stream mode: the time of one
  Transfer is derived from the cycle stamps of the slots its \<open>subExecIdx\<close> names.
\<close>

definition timeFromCycles ::
  "'t Launch \<Rightarrow> 'f EnvVars \<Rightarrow> SubExecParam list \<Rightarrow> ('t::plus) Transfer \<Rightarrow> 't Transfer" where
  "timeFromCycles hw ev params currTransfer =
     (let minStartCycle = fold (\<lambda>i m. min m (startCycle (params ! i))) (subExecIdx currTransfer) LLONG_MAX;
          maxStopCycle = fold (\<lambda>i m. max m (stopCycle (params ! i))) (subExecIdx currTransfer) LLONG_MIN;
          CUs = (if showIterations ev
                 then set (map (\<lambda>i. (xccId (params ! i), GetId (hwId (params ! i)))) (subExecIdx currTransfer))
                 else {});
          iterationTimeMs = cyclesToMs hw (wrapLongLong (maxStopCycle - minStartCycle))
      in if showIterations ev
         then currTransfer
                \<lparr>transferTime := transferTime currTransfer + iterationTimeMs,
                 perIterationTime := perIterationTime currTransfer @ [iterationTimeMs],
                 perIterationCUs := perIterationCUs currTransfer @ [CUs]\<rparr>
         else currTransfer\<lparr>transferTime := transferTime currTransfer + iterationTimeMs\<rparr>)"

text \<open>Recording a measured time \<open>delta\<close> in one Transfer, as the three executors do.\<close>

definition recordTime :: "'f EnvVars \<Rightarrow> 't \<Rightarrow> ('t::plus) Transfer \<Rightarrow> 't Transfer" where
  "recordTime ev delta transfer =
     (if showIterations ev
      then transfer\<lparr>transferTime := transferTime transfer + delta,
                    perIterationTime := perIterationTime transfer @ [delta]\<rparr>
      else transfer\<lparr>transferTime := transferTime transfer + delta\<rparr>)"

definition RunTransfer ::
  "'t Launch \<Rightarrow> 'f EnvVars \<Rightarrow> int \<Rightarrow> ('t::plus) ExecutorInfo \<Rightarrow> nat \<Rightarrow> error + 't ExecutorInfo" where
  "RunTransfer hw ev iteration exeInfo transferIdx =
     (let transfer = transfers exeInfo ! transferIdx in
      if exeType transfer = EXE_GPU_GFX then
        HIP_CALL (hipOk hw)
          (let numBlocksToRun = (if useSingleStream ev then totalSubExecs exeInfo
                                 else numSubExecs transfer);
               params = kernelWrites hw (subExecParamGpu exeInfo) (subExecParamGpuPtr transfer)
                          numBlocksToRun;
               exeInfo1 = exeInfo\<lparr>subExecParamGpu := params\<rparr>
           in if iteration \<ge> 0 then
                (if useSingleStream ev then
                   Inr (exeInfo1
                         \<lparr>transfers := map (timeFromCycles hw ev params) (transfers exeInfo1),
                          totalTime := totalTime exeInfo1 + gpuDeltaMsec hw\<rparr>)
                 else
                   (let timed = recordTime ev (gpuDeltaMsec hw) transfer;
                        CUs = set (map (\<lambda>i. (xccId (params ! (subExecParamGpuPtr transfer + i)),
                                               GetId (hwId (params ! (subExecParamGpuPtr transfer + i)))))
                                     [0..<nat (numSubExecs transfer)])
                    in Inr (exeInfo1
                             \<lparr>transfers := (transfers exeInfo1)
                                [transferIdx :=
                                   (if showIterations ev
                                    then timed\<lparr>perIterationCUs := perIterationCUs timed @ [CUs]\<rparr>
                                    else timed)]\<rparr>)))
              else Inr exeInfo1)
      else if exeType transfer = EXE_GPU_DMA then
        HIP_CALL (hipOk hw)
          (if iteration \<ge> 0
           then Inr (exeInfo\<lparr>transfers := (transfers exeInfo)
                               [transferIdx := recordTime ev (gpuDeltaMsec hw) transfer]\<rparr>)
           else Inr exeInfo)
      else
        (if \<not> numaRunOnNodeOk hw
         then Inl (Fatal ''[ERROR] Unable to set CPU to NUMA node %d'')
         else if iteration \<ge> 0
         then Inr (exeInfo\<lparr>transfers := (transfers exeInfo)
                             [transferIdx := recordTime ev (cpuDeltaMsec hw) transfer]\<rparr>)
         else Inr exeInfo))"

text \<open>
  The end of one pass of the iteration loop of \<open>ExecuteTransfers\<close>: \<open>deltaSec\<close> is the
  wall-clock time of the pass, the state is \<open>numTimedIterations\<close> and \<open>totalCpuTime\<close>.
\<close>

definition accountIteration :: "int \<Rightarrow> 't \<Rightarrow> nat \<times> ('t::plus) \<Rightarrow> nat \<times> 't" where
  "accountIteration iteration deltaSec st =
     (if iteration \<ge> 0 then (fst st + 1, snd st + deltaSec) else st)"

text \<open>A launch in which every call succeeds, and a group holding the example Transfer.\<close>

definition exampleLaunch :: "int Launch" where
  "exampleLaunch =
     \<lparr>hipOk = True, numaRunOnNodeOk = True, kernelWrites = (\<lambda>params ptr numBlocks. params),
      gpuDeltaMsec = 5, cpuDeltaMsec = 7, cyclesToMs = (\<lambda>cycles. cycles)\<rparr>"

definition exampleGroup :: "int ExecutorInfo" where
  "exampleGroup =
     \<lparr>transfers = [exampleTransfer], totalSubExecs = 3, totalBytes = 40, totalTime = 0,
      subExecParamGpu = []\<rparr>"

section \<open>Merging the parameter lists of a group: \<open>ExecuteTransfers\<close>, lines 349 to 415\<close>

text \<open>
  For a group on the device compute kernel, \<open>ExecuteTransfers\<close> builds the vector
  \<open>tempSubExecParam\<close> from the \<open>subExecParam\<close> vectors of the group's Transfers and
  copies it to the device; each Transfer records in \<open>subExecIdx\<close> the positions of its
  units.  The three functions below are the three branches, each returning the vector
  and the Transfers as the branch leaves them.

  Sequential placement (also used whenever combined-stream mode is off).  The inner
  loop appends the Transfer's units in order and records \<open>transferOffset + subExecIdx\<close>
  for each; before it, the Transfer's \<open>subExecIdx\<close> is cleared.
\<close>

fun mergeSequential ::
  "int \<Rightarrow> SubExecParam list \<Rightarrow> 't Transfer list \<Rightarrow> SubExecParam list \<times> 't Transfer list" where
  "mergeSequential transferOffset temp [] = (temp, [])"
| "mergeSequential transferOffset temp (transfer # rest) =
     (let transfer' = transfer
            \<lparr>subExecParamGpuPtr := nat transferOffset,
             subExecIdx := map (\<lambda>k. nat (transferOffset + int k)) [0..<length (subExecParam transfer)]\<rparr>;
          temp' = temp @ subExecParam transfer
      in case mergeSequential (transferOffset + numSubExecs transfer) temp' rest of
           (tmp, rest') \<Rightarrow> (tmp, transfer' # rest'))"

text \<open>
  Interleaved placement: one round of the inner loop over the Transfers for a given
  \<open>subExecIdx\<close>, and the outer loop, which goes on for as long as the vector is shorter
  than \<open>totalSubExecs\<close>.  Nothing clears a Transfer's \<open>subExecIdx\<close> here.  The outer loop
  has no bound of its own, so its result is optional: \<open>None\<close> is a loop that never ends.
\<close>

fun interleaveRound ::
  "nat \<Rightarrow> SubExecParam list \<Rightarrow> 't Transfer list \<Rightarrow> SubExecParam list \<times> 't Transfer list" where
  "interleaveRound k temp [] = (temp, [])"
| "interleaveRound k temp (transfer # rest) =
     (if int k < numSubExecs transfer
      then (case interleaveRound k (temp @ [subExecParam transfer ! k]) rest of
              (tmp, rest') \<Rightarrow>
                (tmp, transfer\<lparr>subExecIdx := subExecIdx transfer @ [length temp]\<rparr> # rest'))
      else (case interleaveRound k temp rest of
              (tmp, rest') \<Rightarrow> (tmp, transfer # rest')))"

partial_function (option) interleaveLoop ::
  "int \<Rightarrow> nat \<Rightarrow> SubExecParam list \<times> 't Transfer list
     \<Rightarrow> (SubExecParam list \<times> 't Transfer list) option" where
  "interleaveLoop totalSub k st =
     (if int (length (fst st)) < totalSub
      then interleaveLoop totalSub (Suc k) (interleaveRound k (fst st) (snd st))
      else Some st)"

declare interleaveLoop.simps [code]

text \<open>
  Random placement.  The pairs (Transfer, unit) are listed in order and handed to
  \<open>std::shuffle\<close>, which is a parameter here: \<open>shuffle\<close> maps the list to the order in
  which the generator leaves it.  The second loop places the units in that order.
  Nothing clears a Transfer's \<open>subExecIdx\<close> here either.
\<close>

definition unitIndices :: "'t Transfer list \<Rightarrow> (nat \<times> nat) list" where
  "unitIndices ts =
     concat (map (\<lambda>i. map (\<lambda>k. (i, k)) [0..<nat (numSubExecs (ts ! i))]) [0..<length ts])"

definition placeUnit ::
  "nat \<times> nat \<Rightarrow> SubExecParam list \<times> 't Transfer list \<Rightarrow> SubExecParam list \<times> 't Transfer list" where
  "placeUnit p st =
     (let transfer = snd st ! fst p
      in (fst st @ [subExecParam transfer ! snd p],
          (snd st)[fst p := transfer\<lparr>subExecIdx := subExecIdx transfer @ [length (fst st)]\<rparr>]))"

definition mergeRandom ::
  "((nat \<times> nat) list \<Rightarrow> (nat \<times> nat) list) \<Rightarrow> 't Transfer list
     \<Rightarrow> SubExecParam list \<times> 't Transfer list" where
  "mergeRandom shuffle ts = fold placeUnit (shuffle (unitIndices ts)) ([], ts)"

text \<open>
  The three branches together.  In the last two, the first Transfer's
  \<open>subExecParamGpuPtr\<close> is set to the start of the device array.
\<close>

definition mergeSubExecParams ::
  "'f EnvVars \<Rightarrow> ((nat \<times> nat) list \<Rightarrow> (nat \<times> nat) list) \<Rightarrow> 't ExecutorInfo
     \<Rightarrow> (SubExecParam list \<times> 't Transfer list) option" where
  "mergeSubExecParams ev shuffle exeInfo =
     (let ts = transfers exeInfo;
          ts0 = ts[0 := (ts ! 0)\<lparr>subExecParamGpuPtr := 0\<rparr>]
      in if \<not> useSingleStream ev \<or> blockOrder ev = ORDER_SEQUENTIAL
         then Some (mergeSequential 0 [] ts)
         else if blockOrder ev = ORDER_INTERLEAVED
         then interleaveLoop (totalSubExecs exeInfo) 0 ([], ts0)
         else Some (mergeRandom shuffle ts0))"

text \<open>
  The part of \<open>ExecuteTransfers\<close> that prepares one group for a run (lines 245 to 283 and
  331 to 415, without the allocation and the filling of buffers): the group's
  \<open>totalSubExecs\<close> is summed up, \<open>PrepareSubExecParams\<close> runs on every Transfer, and the
  lists are merged and placed in the device array.
\<close>

fun prepareAll :: "'f EnvVars \<Rightarrow> ('t::zero) Transfer list \<Rightarrow> error + 't Transfer list" where
  "prepareAll ev [] = Inr []"
| "prepareAll ev (transfer # rest) =
     (case PrepareSubExecParams ev transfer of
        Inl e \<Rightarrow> Inl e
      | Inr transfer' \<Rightarrow>
          (case prepareAll ev rest of
             Inl e \<Rightarrow> Inl e
           | Inr rest' \<Rightarrow> Inr (transfer' # rest')))"

definition prepareGroup ::
  "'f EnvVars \<Rightarrow> ((nat \<times> nat) list \<Rightarrow> (nat \<times> nat) list) \<Rightarrow> ('t::zero) ExecutorInfo
     \<Rightarrow> (error + 't ExecutorInfo) option" where
  "prepareGroup ev shuffle exeInfo =
     (case prepareAll ev (transfers exeInfo) of
        Inl e \<Rightarrow> Some (Inl e)
      | Inr ts \<Rightarrow>
          (let exeInfo1 = exeInfo\<lparr>transfers := ts, totalTime := 0,
                                   totalSubExecs := sum_list (map numSubExecs ts)\<rparr>
           in case mergeSubExecParams ev shuffle exeInfo1 of
                None \<Rightarrow> None
              | Some (temp, ts') \<Rightarrow>
                  Some (Inr (exeInfo1\<lparr>transfers := ts',
                                       subExecParamGpu := temp @ drop (length temp) (subExecParamGpu exeInfo1)\<rparr>))))"

text \<open>
  What the claim asks of a merged vector and the Transfers that go with it: the vector
  is a rearrangement of all the Transfers' units, and the positions a Transfer has
  recorded hold exactly its own units.
\<close>

definition coversExactly :: "SubExecParam list \<Rightarrow> 't Transfer list \<Rightarrow> bool" where
  "coversExactly temp ts \<longleftrightarrow>
     mset temp = mset (concat (map subExecParam ts))
     \<and> list_all (\<lambda>t. list_all (\<lambda>i. i < length temp) (subExecIdx t)
                      \<and> mset (map (\<lambda>i. temp ! i) (subExecIdx t)) = mset (subExecParam t)) ts"

text \<open>
  Two Transfers of one unit each on the same device, in combined-stream mode with random
  block order, and two outcomes of the shuffle: the list reversed, and the list as it is.
\<close>

definition randomEnv :: "int EnvVars" where
  "randomEnv = exampleEnv\<lparr>useSingleStream := True, blockOrder := ORDER_RANDOM\<rparr>"

definition gfxTransferA :: "int Transfer" where
  "gfxTransferA =
     exampleTransfer\<lparr>exeType := EXE_GPU_GFX, numSubExecs := 1, srcMem := [1000], dstMem := [2000]\<rparr>"

definition gfxTransferB :: "int Transfer" where
  "gfxTransferB =
     exampleTransfer\<lparr>transferIndex := 1, exeType := EXE_GPU_GFX, numSubExecs := 1,
                      srcMem := [3000], dstMem := [4000]\<rparr>"

definition gfxGroup :: "int ExecutorInfo" where
  "gfxGroup =
     \<lparr>transfers = [gfxTransferA, gfxTransferB], totalSubExecs = 0, totalBytes = 0, totalTime = 0,
      subExecParamGpu = replicate 2 zeroSubExecParam\<rparr>"

text \<open>
  The group after a first run of \<open>ExecuteTransfers\<close> in which the shuffle reverses the
  list, and after a second run on the same Transfer objects in which it leaves the list
  as it is (\<open>main\<close> calls \<open>ExecuteTransfers\<close> repeatedly on one vector of Transfers when
  it sweeps the sizes).
\<close>

definition firstRun :: "int ExecutorInfo" where
  "firstRun = projr (the (prepareGroup randomEnv rev gfxGroup))"

definition secondRun :: "int ExecutorInfo" where
  "secondRun = projr (the (prepareGroup randomEnv id firstRun))"

text \<open>
  A sharper form for one Transfer: its recorded positions lie inside the merged vector
  and hold its own units, one after the other.
\<close>

definition ownUnits :: "SubExecParam list \<Rightarrow> 't Transfer \<Rightarrow> bool" where
  "ownUnits temp t \<longleftrightarrow>
     list_all (\<lambda>i. i < length temp) (subExecIdx t)
     \<and> map (\<lambda>i. temp ! i) (subExecIdx t) = subExecParam t"

text \<open>
  What \<open>PrepareSubExecParams\<close> leaves behind in every Transfer of the group: as many
  units as sub-executors were requested.
\<close>

definition prepared :: "'t Transfer list \<Rightarrow> bool" where
  "prepared ts \<longleftrightarrow>
     list_all (\<lambda>t. 0 \<le> numSubExecs t \<and> length (subExecParam t) = nat (numSubExecs t)) ts"

text \<open>
  For the interleaved branch: the units that round \<open>k\<close> appends, and the state of the
  vector and the Transfers after \<open>k\<close> rounds on Transfers \<open>ts0\<close> whose \<open>subExecIdx\<close> was
  empty at the start: every Transfer has recorded the positions of its first \<open>k\<close> units.
\<close>

definition roundUnits :: "nat \<Rightarrow> 't Transfer list \<Rightarrow> SubExecParam list" where
  "roundUnits k ts =
     concat (map (\<lambda>t. if int k < numSubExecs t then [subExecParam t ! k] else []) ts)"

definition afterRounds ::
  "'t Transfer list \<Rightarrow> nat \<Rightarrow> SubExecParam list \<Rightarrow> 't Transfer list \<Rightarrow> bool" where
  "afterRounds ts0 k temp ts \<longleftrightarrow>
     length ts = length ts0
     \<and> (\<forall>i<length ts0.
           subExecParam (ts ! i) = subExecParam (ts0 ! i)
         \<and> numSubExecs (ts ! i) = numSubExecs (ts0 ! i)
         \<and> list_all (\<lambda>j. j < length temp) (subExecIdx (ts ! i))
         \<and> map (\<lambda>j. temp ! j) (subExecIdx (ts ! i)) = take k (subExecParam (ts0 ! i)))
     \<and> mset temp = mset (concat (map (\<lambda>t. take k (subExecParam t)) ts0))"

chapter \<open>Properties\<close>

section \<open>The sub-executor partitioner\<close>

subsection \<open>Prefix sums and rounding\<close>

lemma prefixN_0: "prefixN ps 0 = 0"
  by (simp add: prefixN_def)

lemma prefixN_Suc: "i < length ps \<Longrightarrow> prefixN ps (Suc i) = prefixN ps i + N (ps ! i)"
  by (simp add: prefixN_def take_Suc_conv_app_nth)

lemma prefixN_all: "length ps \<le> i \<Longrightarrow> prefixN ps i = sum_list (map N ps)"
  by (simp add: prefixN_def)

lemma prefixN_update: "i \<le> k \<Longrightarrow> prefixN (ps[k := p]) i = prefixN ps i"
  by (simp add: prefixN_def)

lemma prefixN_add: "prefixN ps (i + d) = prefixN ps i + sum_list (map N (take d (drop i ps)))"
  by (simp add: prefixN_def take_add)

lemma prefixN_mono: "i \<le> j \<Longrightarrow> prefixN ps i \<le> prefixN ps j"
  using prefixN_add [of ps i "j - i"] by simp

lemma round_up_ge: "0 < G \<Longrightarrow> (x::nat) \<le> (x + G - 1) div G * G"
proof -
  assume G: "0 < G"
  have "x + G - 1 = (x + G - 1) div G * G + (x + G - 1) mod G" by simp
  moreover have "(x + G - 1) mod G < G" using G by simp
  ultimately show ?thesis using G by linarith
qed

lemma ceil_div_nat:
  assumes G: "0 < G"
  shows "nat \<lceil>real n / real G\<rceil> = (n + G - 1) div G"
proof -
  let ?q = "(n + G - 1) div G"
  have up: "n \<le> ?q * G" by (rule round_up_ge [OF G])
  have "?q * G \<le> n + G - 1" by simp
  then have lo: "?q * G < n + G" using G by linarith
  have "real n \<le> real (?q * G)" using up by (rule of_nat_mono)
  then have 1: "real n / real G \<le> of_int (int ?q)"
    using G by (simp add: pos_divide_le_eq)
  have "real (?q * G) < real (n + G)" using lo by (rule of_nat_less_iff [THEN iffD2])
  then have "(real ?q - 1) * real G < real n" by (simp add: algebra_simps)
  then have 2: "of_int (int ?q) - 1 < real n / real G"
    using G by (simp add: pos_less_divide_eq)
  have "\<lceil>real n / real G\<rceil> = int ?q" using 2 1 by (rule ceiling_unique)
  then show ?thesis by simp
qed

subsection \<open>One loop body\<close>

lemma N_subExecParamAt:
  "N (subExecParamAt ev t n io G m i a) =
     (if int i < m then min (n - a) ((((n - a) + G - 1) div G) div nat (m - int i) * G) else 0)"
  by (auto simp: subExecParamAt_def Let_def max_def)

lemma src_subExecParamAt:
  "src (subExecParamAt ev t n io G m i a) = map (\<lambda>k. srcMem t ! k + a + io) [0..<Transfer.numSrcs t]"
  by (simp add: subExecParamAt_def Let_def)

lemma dst_subExecParamAt:
  "dst (subExecParamAt ev t n io G m i a) = map (\<lambda>k. dstMem t ! k + a + io) [0..<Transfer.numDsts t]"
  by (simp add: subExecParamAt_def Let_def)

lemma chunk_le: "N (subExecParamAt ev t n io G m i a) \<le> n - a"
  by (simp add: N_subExecParamAt)

lemma chunk_zero: "m \<le> int i \<Longrightarrow> N (subExecParamAt ev t n io G m i a) = 0"
  by (simp add: N_subExecParamAt)

lemma chunk_last:
  "0 < G \<Longrightarrow> m = int i + 1 \<Longrightarrow> N (subExecParamAt ev t n io G m i a) = n - a"
  using round_up_ge [of G "n - a"] by (simp add: N_subExecParamAt min_def)

subsection \<open>The loop\<close>

lemma partition_loop_inv:
  assumes "k \<le> S"
  shows "let st = fold (subExecStep ev t n io G m) [0..<k] (0, replicate S zeroSubExecParam)
         in length (snd st) = S \<and> fst st = prefixN (snd st) k
         \<and> (\<forall>j<k. snd st ! j = subExecParamAt ev t n io G m j (prefixN (snd st) j))"
  using assms unfolding Let_def
proof (induction k)
  case 0
  show ?case by (simp add: prefixN_0)
next
  case (Suc k)
  let ?st = "fold (subExecStep ev t n io G m) [0..<k] (0, replicate S zeroSubExecParam)"
  let ?p = "subExecParamAt ev t n io G m k (fst ?st)"
  from Suc have IH: "length (snd ?st) = S" "fst ?st = prefixN (snd ?st) k"
    "\<forall>j<k. snd ?st ! j = subExecParamAt ev t n io G m j (prefixN (snd ?st) j)"
    by simp_all
  have k: "k < length (snd ?st)" using Suc.prems IH(1) by simp
  have step: "fold (subExecStep ev t n io G m) [0..<Suc k] (0, replicate S zeroSubExecParam)
        = (fst ?st + N ?p, (snd ?st)[k := ?p])"
    by (simp add: subExecStep_def Let_def)
  have a: "prefixN ((snd ?st)[k := ?p]) (Suc k) = fst ?st + N ?p"
    using k by (simp add: prefixN_Suc prefixN_update IH(2))
  have b: "\<forall>j<Suc k. (snd ?st)[k := ?p] ! j
             = subExecParamAt ev t n io G m j (prefixN ((snd ?st)[k := ?p]) j)"
  proof (intro allI impI)
    fix j assume "j < Suc k"
    show "(snd ?st)[k := ?p] ! j = subExecParamAt ev t n io G m j (prefixN ((snd ?st)[k := ?p]) j)"
    proof (cases "j = k")
      case True
      then show ?thesis using k by (simp add: prefixN_update IH(2))
    next
      case False
      with \<open>j < Suc k\<close> have "j < k" by simp
      then show ?thesis using IH(3) by (simp add: prefixN_update)
    qed
  qed
  show ?case unfolding step using IH(1) a b by simp
qed

lemma partition_prefix_le:
  "loop_result ev t n io G m ps \<Longrightarrow> j \<le> length ps \<Longrightarrow> prefixN ps j \<le> n"
proof (induction j)
  case 0
  show ?case by (simp add: prefixN_0)
next
  case (Suc j)
  then have j: "j < length ps" and le: "prefixN ps j \<le> n" by simp_all
  from Suc.prems(1) j have "N (ps ! j) = N (subExecParamAt ev t n io G m j (prefixN ps j))"
    by (simp add: loop_result_def)
  then have "N (ps ! j) \<le> n - prefixN ps j" by (simp add: chunk_le)
  with le show ?case by (simp add: prefixN_Suc [OF j])
qed

lemma partition_tail_zero:
  "loop_result ev t n io G m ps \<Longrightarrow> j < length ps \<Longrightarrow> m \<le> int j \<Longrightarrow> N (ps ! j) = 0"
  by (simp add: loop_result_def chunk_zero)

lemma partition_prefix_full:
  assumes P: "loop_result ev t n io G m ps" and G: "0 < G"
    and m: "0 < m" "nat m \<le> length ps"
  shows "prefixN ps (nat m) = n"
proof -
  define i where "i = nat m - 1"
  have i: "m = int i + 1" using m(1) by (simp add: i_def)
  then have il: "i < length ps" and mi: "nat m = Suc i" using m(2) by simp_all
  have le: "prefixN ps i \<le> n" using partition_prefix_le [OF P, of i] il by simp
  have "N (ps ! i) = n - prefixN ps i"
    using P il chunk_last [OF G i] by (simp add: loop_result_def)
  then show ?thesis using le by (simp add: mi prefixN_Suc [OF il])
qed

lemma partition_prefix_const:
  "loop_result ev t n io G m ps \<Longrightarrow> m \<le> int k \<Longrightarrow> k + d \<le> length ps
     \<Longrightarrow> prefixN ps (k + d) = prefixN ps k"
proof (induction d)
  case 0
  show ?case by simp
next
  case (Suc d)
  then have lt: "k + d < length ps" by simp
  have "N (ps ! (k + d)) = 0"
    using partition_tail_zero [OF Suc.prems(1) lt] Suc.prems(2) by simp
  then show ?case using Suc lt by (simp add: prefixN_Suc)
qed

lemma partition_sum:
  assumes P: "loop_result ev t n io G m ps" and G: "0 < G"
    and m: "m = maxSubExecToUse n G S" and S: "0 < S" "length ps = nat S"
  shows "sum_list (map N ps) = n"
proof (cases "n = 0")
  case True
  then show ?thesis using partition_prefix_le [OF P, of "length ps"] by (simp add: prefixN_all)
next
  case False
  then have "G \<le> n + G - 1" by simp
  then have "0 < (n + G - 1) div G" using G by (simp add: div_greater_zero_iff)
  then have m0: "0 < m" using S(1) by (simp add: m maxSubExecToUse_def)
  have mS: "nat m \<le> length ps" by (simp add: m maxSubExecToUse_def S(2))
  have "prefixN ps (nat m + (length ps - nat m)) = prefixN ps (nat m)"
    by (rule partition_prefix_const [OF P]) (use m0 mS in simp_all)
  then show ?thesis using partition_prefix_full [OF P G m0 mS] mS by (simp add: prefixN_all)
qed

lemma partition_nonzero_count:
  assumes P: "loop_result ev t n io G m ps" and m: "0 \<le> m"
  shows "length (filter (\<lambda>p. N p \<noteq> 0) ps) \<le> nat m"
proof -
  have "\<forall>p \<in> set (drop (nat m) ps). N p = 0"
  proof
    fix p assume "p \<in> set (drop (nat m) ps)"
    then obtain j where j: "j < length (drop (nat m) ps)" "p = drop (nat m) ps ! j"
      by (metis in_set_conv_nth)
    then have "p = ps ! (nat m + j)" "nat m + j < length ps" by simp_all
    then show "N p = 0" using partition_tail_zero [OF P, of "nat m + j"] m by simp
  qed
  then have z: "filter (\<lambda>p. N p \<noteq> 0) (drop (nat m) ps) = []" by (simp add: filter_empty_conv)
  have "filter (\<lambda>p. N p \<noteq> 0) ps
          = filter (\<lambda>p. N p \<noteq> 0) (take (nat m) ps) @ filter (\<lambda>p. N p \<noteq> 0) (drop (nat m) ps)"
    by (metis append_take_drop_id filter_append)
  then have "length (filter (\<lambda>p. N p \<noteq> 0) ps) = length (filter (\<lambda>p. N p \<noteq> 0) (take (nat m) ps))"
    using z by simp
  also have "\<dots> \<le> length (take (nat m) ps)" by (rule length_filter_le)
  also have "\<dots> \<le> nat m" by simp
  finally show ?thesis .
qed

subsection \<open>The member function\<close>

lemma PrepareSubExecParams_returns:
  assumes "4 \<le> blockBytes ev" and "0 \<le> numSubExecs t"
  shows "\<exists>t'. PrepareSubExecParams ev t = Inr t'"
proof -
  have "blockBytes ev div 4 \<noteq> 0" using assms(1) by (simp add: div_greater_zero_iff)
  then show ?thesis using assms(2) by (simp add: PrepareSubExecParams_def Let_def)
qed

lemma PrepareSubExecParams_result:
  assumes "PrepareSubExecParams ev t = Inr t'"
  shows "0 < blockBytes ev div 4 \<and> 0 \<le> numSubExecs t
         \<and> length (subExecParam t') = nat (numSubExecs t)
         \<and> loop_result ev t (numBytesActual t div 4) (byteOffset ev div 4) (blockBytes ev div 4)
              (maxSubExecToUse (numBytesActual t div 4) (blockBytes ev div 4) (numSubExecs t))
              (subExecParam t')"
proof -
  let ?n = "numBytesActual t div 4" and ?io = "byteOffset ev div 4" and ?G = "blockBytes ev div 4"
  let ?S = "nat (numSubExecs t)"
  let ?m = "maxSubExecToUse ?n ?G (numSubExecs t)"
  let ?st = "fold (subExecStep ev t ?n ?io ?G ?m) [0..<?S] (0, replicate ?S zeroSubExecParam)"
  from assms have G: "?G \<noteq> 0" and S: "\<not> numSubExecs t < 0"
    by (auto simp: PrepareSubExecParams_def Let_def split: if_splits)
  with assms have t': "subExecParam t' = snd ?st"
    by (auto simp: PrepareSubExecParams_def Let_def)
  have inv: "length (snd ?st) = ?S \<and> fst ?st = prefixN (snd ?st) ?S
         \<and> (\<forall>j<?S. snd ?st ! j = subExecParamAt ev t ?n ?io ?G ?m j (prefixN (snd ?st) j))"
    using partition_loop_inv [of ?S ?S ev t ?n ?io ?G ?m] by (simp add: Let_def)
  then have "loop_result ev t ?n ?io ?G ?m (snd ?st)" by (simp add: loop_result_def)
  then show ?thesis using G S inv t' by simp
qed

text \<open>
  The subtraction \<open>N - assigned\<close> of the loop body never wraps: whatever the loop has
  assigned before any index is at most \<open>N\<close>.
\<close>

lemma partition_assigned_le:
  assumes "PrepareSubExecParams ev t = Inr t'" and "i \<le> nat (numSubExecs t)"
  shows "prefixN (subExecParam t') i \<le> numBytesActual t div 4"
  using PrepareSubExecParams_result [OF assms(1)] assms(2)
  by (auto intro: partition_prefix_le)

text \<open>
  Nor does any other \<open>size_t\<close> expression of the loop body wrap: with \<open>assigned \<le> N\<close>,
  the sum \<open>leftover + targetMultiple - 1\<close> and the product
  \<open>(roundedN / subExecLeft) * targetMultiple\<close> stay below \<open>N + targetMultiple\<close>, which is
  far below \<open>2^64\<close> (\<open>N\<close> is a byte count divided by 4, \<open>targetMultiple\<close> an \<open>int\<close>
  divided by 4).
\<close>

lemma size_t_no_wrap:
  fixes n a G L :: nat
  assumes "a \<le> n"
  shows "n - a + G - 1 \<le> n + G - 1 \<and> ((n - a + G - 1) div G div L) * G \<le> n + G - 1"
proof -
  have 1: "n - a + G - 1 \<le> n + G - 1" using assms by simp
  have "(n - a + G - 1) div G div L \<le> (n - a + G - 1) div G" by (rule div_le_dividend)
  then have "((n - a + G - 1) div G div L) * G \<le> ((n - a + G - 1) div G) * G"
    by (rule mult_le_mono1)
  also have "\<dots> \<le> n - a + G - 1" by simp
  finally show ?thesis using 1 by simp
qed

subsection \<open>Exact cover of the element range\<close>

text \<open>
  Claim C1.  For a Transfer of \<open>N\<close> elements, \<open>S \<ge> 1\<close> requested sub-executors and an
  alignment granularity of \<open>G \<ge> 1\<close> elements per block, \<open>PrepareSubExecParams\<close> returns,
  and the \<open>S\<close> entries it produces have counts (naturals, so never negative) that sum to
  exactly \<open>N\<close>; every source and destination pointer of unit \<open>i\<close> is its buffer's base
  plus the initial offset plus the sum of the counts of all earlier units, so the units
  cover contiguous ranges, and the range of a unit ends at or before the start of every
  later one; at most \<open>min(S, ceil(N/G))\<close> entries are non-zero.
\<close>

theorem partition_exact:
  assumes G: "4 \<le> blockBytes ev" and S: "0 < numSubExecs t"
  shows "\<exists>t'. PrepareSubExecParams ev t = Inr t' \<and>
     (let ps = subExecParam t';
          n = numBytesActual t div 4;
          G = blockBytes ev div 4;
          initOffset = byteOffset ev div 4;
          S = nat (numSubExecs t)
      in length ps = S
       \<and> sum_list (map N ps) = n
       \<and> (\<forall>i<S. src (ps ! i) = map (\<lambda>k. srcMem t ! k + prefixN ps i + initOffset) [0..<Transfer.numSrcs t]
               \<and> dst (ps ! i) = map (\<lambda>k. dstMem t ! k + prefixN ps i + initOffset) [0..<Transfer.numDsts t])
       \<and> (\<forall>i<S. \<forall>j<S. i < j \<longrightarrow> prefixN ps i + N (ps ! i) \<le> prefixN ps j)
       \<and> length (filter (\<lambda>p. N p \<noteq> 0) ps) \<le> spec_maxUsable n S G)"
proof -
  let ?n = "numBytesActual t div 4" and ?io = "byteOffset ev div 4" and ?G = "blockBytes ev div 4"
  let ?S = "nat (numSubExecs t)"
  let ?m = "maxSubExecToUse ?n ?G (numSubExecs t)"
  from S have "0 \<le> numSubExecs t" by simp
  from PrepareSubExecParams_returns [OF G this] obtain t'
    where t': "PrepareSubExecParams ev t = Inr t'" by auto
  let ?ps = "subExecParam t'"
  from PrepareSubExecParams_result [OF t']
  have G0: "0 < ?G" and len: "length ?ps = ?S" and P: "loop_result ev t ?n ?io ?G ?m ?ps"
    by simp_all
  have sum: "sum_list (map N ?ps) = ?n"
    using partition_sum [OF P G0 refl S] len by simp
  have ptr: "\<forall>i<?S. src (?ps ! i) = map (\<lambda>k. srcMem t ! k + prefixN ?ps i + ?io) [0..<Transfer.numSrcs t]
               \<and> dst (?ps ! i) = map (\<lambda>k. dstMem t ! k + prefixN ?ps i + ?io) [0..<Transfer.numDsts t]"
    using P len by (simp add: loop_result_def src_subExecParamAt dst_subExecParamAt)
  have disj: "\<forall>i<?S. \<forall>j<?S. i < j \<longrightarrow> prefixN ?ps i + N (?ps ! i) \<le> prefixN ?ps j"
  proof (intro allI impI)
    fix i j assume "i < ?S" "j < ?S" "i < j"
    then have "prefixN ?ps i + N (?ps ! i) = prefixN ?ps (Suc i)" using len by (simp add: prefixN_Suc)
    also have "\<dots> \<le> prefixN ?ps j" using \<open>i < j\<close> by (intro prefixN_mono) simp
    finally show "prefixN ?ps i + N (?ps ! i) \<le> prefixN ?ps j" .
  qed
  have m: "nat ?m = spec_maxUsable ?n ?S ?G"
    by (simp add: maxSubExecToUse_def spec_maxUsable_def ceil_div_nat [OF G0] min.commute)
  have "0 \<le> ?m" by (simp add: maxSubExecToUse_def)
  from partition_nonzero_count [OF P this]
  have nz: "length (filter (\<lambda>p. N p \<noteq> 0) ?ps) \<le> spec_maxUsable ?n ?S ?G" by (simp add: m)
  show ?thesis using t' len sum ptr disj nz by (simp add: Let_def)
qed

text \<open>The statement at the example Transfer: 10 elements, blocks of 2, 3 sub-executors.\<close>

theorem partition_exact_witness:
  "4 \<le> blockBytes exampleEnv \<and> 0 < numSubExecs exampleTransfer \<and>
   (\<exists>t'. PrepareSubExecParams exampleEnv exampleTransfer = Inr t'
      \<and> length (subExecParam t') = 3
      \<and> sum_list (map N (subExecParam t')) = 10
      \<and> length (filter (\<lambda>p. N p \<noteq> 0) (subExecParam t')) \<le> 3)"
proof -
  have h1: "4 \<le> blockBytes exampleEnv" by (simp add: exampleEnv_def)
  have h2: "0 < numSubExecs exampleTransfer" by (simp add: exampleTransfer_def)
  have n: "numBytesActual exampleTransfer div 4 = 10" "nat (numSubExecs exampleTransfer) = 3"
     "blockBytes exampleEnv div 4 = 2"
    by (simp_all add: exampleTransfer_def exampleEnv_def)
  have u: "spec_maxUsable 10 3 2 = 3" by (simp add: spec_maxUsable_def)
  show ?thesis using partition_exact [OF h1 h2] h1 h2 by (auto simp: Let_def n u)
qed

subsection \<open>The count of one unit\<close>

text \<open>
  Claim C2, as the code has it.  For every sub-executor index \<open>i\<close> the loop processes,
  with \<open>remaining = N - assignedSoFar\<close>, \<open>maxUsable = min(S, ceil(N/G))\<close> and
  \<open>subExecLeft = max(0, maxUsable - i)\<close>, the count of unit \<open>i\<close> is
  \<open>min(remaining, (ceil(remaining/G) div subExecLeft) * G)\<close> when \<open>subExecLeft > 0\<close>
  and 0 otherwise: the number of blocks is rounded up, the division by \<open>subExecLeft\<close>
  rounds down.
\<close>

theorem subExec_count:
  assumes "PrepareSubExecParams ev t = Inr t'" and "i < nat (numSubExecs t)"
  shows "N (subExecParam t' ! i) =
     code_count (numBytesActual t div 4 - prefixN (subExecParam t') i) (blockBytes ev div 4)
       (spec_subExecLeft
          (spec_maxUsable (numBytesActual t div 4) (nat (numSubExecs t)) (blockBytes ev div 4)) i)"
proof -
  let ?n = "numBytesActual t div 4" and ?io = "byteOffset ev div 4" and ?G = "blockBytes ev div 4"
  let ?S = "nat (numSubExecs t)"
  let ?m = "maxSubExecToUse ?n ?G (numSubExecs t)"
  let ?ps = "subExecParam t'"
  from PrepareSubExecParams_result [OF assms(1)]
  have G0: "0 < ?G" and len: "length ?ps = ?S" and P: "loop_result ev t ?n ?io ?G ?m ?ps"
    by simp_all
  have m: "?m = int (spec_maxUsable ?n ?S ?G)"
    by (simp add: maxSubExecToUse_def spec_maxUsable_def ceil_div_nat [OF G0] min.commute)
  have "?ps ! i = subExecParamAt ev t ?n ?io ?G ?m i (prefixN ?ps i)"
    using P assms(2) len by (simp add: loop_result_def)
  then have "N (?ps ! i) = N (subExecParamAt ev t ?n ?io ?G ?m i (prefixN ?ps i))" by simp
  also have "\<dots> = code_count (?n - prefixN ?ps i) ?G (spec_subExecLeft (spec_maxUsable ?n ?S ?G) i)"
    by (auto simp: N_subExecParamAt code_count_def spec_subExecLeft_def m ceil_div_nat [OF G0] max_def)
  finally show ?thesis .
qed

text \<open>The statement at unit 2 of the example Transfer, whose units get 2, 4 and 4 elements.\<close>

theorem subExec_count_witness:
  "PrepareSubExecParams exampleEnv exampleTransfer
     = Inr (projr (PrepareSubExecParams exampleEnv exampleTransfer))
   \<and> (2::nat) < nat (numSubExecs exampleTransfer)
   \<and> N (subExecParam (projr (PrepareSubExecParams exampleEnv exampleTransfer)) ! 2) = 4
   \<and> code_count (10 - 6) 2 (spec_subExecLeft (spec_maxUsable 10 3 2) 2) = 4"
proof -
  let ?t' = "projr (PrepareSubExecParams exampleEnv exampleTransfer)"
  have h1: "PrepareSubExecParams exampleEnv exampleTransfer = Inr ?t'" by code_simp
  have h2: "(2::nat) < nat (numSubExecs exampleTransfer)" by (simp add: exampleTransfer_def)
  have n: "numBytesActual exampleTransfer div 4 = 10" "nat (numSubExecs exampleTransfer) = 3"
     "blockBytes exampleEnv div 4 = 2"
    by (simp_all add: exampleTransfer_def exampleEnv_def)
  have p: "prefixN (subExecParam ?t') 2 = 6" by code_simp
  have c: "code_count (10 - 6) 2 (spec_subExecLeft (spec_maxUsable 10 3 2) 2) = 4"
    by (simp add: code_count_def spec_subExecLeft_def spec_maxUsable_def)
  have "N (subExecParam ?t' ! 2) = code_count (10 - 6) 2 (spec_subExecLeft (spec_maxUsable 10 3 2) 2)"
    using subExec_count [OF h1 h2] unfolding n p .
  then show ?thesis using h1 h2 c by simp
qed

text \<open>
  With the quotient \<open>remaining/G/subExecLeft\<close> rounded up as a whole, as the
  specification writes the formula, unit 0 of the example Transfer would get
  \<open>min(10, ceil(10/2/3) * 2) = 4\<close> elements; the code gives it \<open>(5 div 3) * 2 = 2\<close>.
\<close>

theorem subExec_count_spec_counterexample:
  "N (subExecParam (projr (PrepareSubExecParams exampleEnv exampleTransfer)) ! 0)
     \<noteq> spec_count
          (numBytesActual exampleTransfer div 4
             - prefixN (subExecParam (projr (PrepareSubExecParams exampleEnv exampleTransfer))) 0)
          (blockBytes exampleEnv div 4)
          (spec_subExecLeft
             (spec_maxUsable (numBytesActual exampleTransfer div 4)
                (nat (numSubExecs exampleTransfer)) (blockBytes exampleEnv div 4)) 0)"
proof -
  have a: "N (subExecParam (projr (PrepareSubExecParams exampleEnv exampleTransfer)) ! 0) = 2"
    by code_simp
  have n: "numBytesActual exampleTransfer div 4 = 10" "nat (numSubExecs exampleTransfer) = 3"
     "blockBytes exampleEnv div 4 = 2"
    by (simp_all add: exampleTransfer_def exampleEnv_def)
  have b: "spec_count (10 - 0) 2 (spec_subExecLeft (spec_maxUsable 10 3 2) 0) = 4"
    by (simp add: spec_count_def spec_subExecLeft_def spec_maxUsable_def)
  show ?thesis unfolding a n prefixN_0 b by simp
qed

section \<open>The pattern generator\<close>

lemma forEachElem_eq:
  "n \<le> length buf \<Longrightarrow> forEachElem n g buf = map (\<lambda>i. g i (buf ! i)) [0..<n] @ drop n buf"
proof (induction n)
  case 0
  show ?case by (simp add: forEachElem_def)
next
  case (Suc n)
  then have n: "n < length buf" and
    IH: "forEachElem n g buf = map (\<lambda>i. g i (buf ! i)) [0..<n] @ drop n buf" by simp_all
  let ?pre = "map (\<lambda>i. g i (buf ! i)) [0..<n]"
  have d: "drop n buf = buf ! n # drop (Suc n) buf" using n by (simp add: Cons_nth_drop_Suc)
  have "forEachElem (Suc n) g buf = (forEachElem n g buf)[n := g n (forEachElem n g buf ! n)]"
    by (simp add: forEachElem_def)
  also have "\<dots> = ?pre @ (g n (buf ! n) # drop (Suc n) buf)"
    unfolding IH d by (simp add: list_update_append nth_append)
  finally show ?case by simp
qed

lemma forEachElem_full:
  "length buf = n \<Longrightarrow> forEachElem n g buf = map (\<lambda>i. g i (buf ! i)) [0..<n]"
  by (simp add: forEachElem_eq)

lemma PrepareReference_src:
  "0 \<le> bufferIdx \<Longrightarrow>
   PrepareReference h ev t buffer bufferIdx =
     map (\<lambda>i. if fillPattern ev \<noteq> [] then fillPattern ev ! (i mod length (fillPattern ev))
               else PrepSrcValue h bufferIdx i) [0..<length buffer]"
  by (subst PrepareReference.simps) (simp add: Let_def forEachElem_full)

lemma length_PrepareReference_src:
  "0 \<le> bufferIdx \<Longrightarrow> length (PrepareReference h ev t buffer bufferIdx) = length buffer"
  by (simp add: PrepareReference_src)

lemma PrepareReference_src_fresh:
  "PrepareReference h ev t buffer (int s) = srcReference h ev t (length buffer) s"
  by (simp add: srcReference_def PrepareReference_src)

lemma add_sources:
  "length b0 = n \<Longrightarrow>
   fold (\<lambda>s b. let temp = R s in forEachElem n (\<lambda>i x. x + temp ! i) b) ss b0
     = map (\<lambda>i. foldl (+) (b0 ! i) (map (\<lambda>s. R s ! i) ss)) [0..<n]"
proof (induction ss arbitrary: b0)
  case Nil
  then have "map ((!) b0) [0..<n] = b0" by (metis map_nth)
  then show ?case by simp
next
  case (Cons s ss)
  let ?b1 = "map (\<lambda>i. b0 ! i + R s ! i) [0..<n]"
  have 1: "forEachElem n (\<lambda>i x. x + R s ! i) b0 = ?b1"
    using Cons.prems by (simp add: forEachElem_full)
  have "length ?b1 = n" by simp
  from Cons.IH [OF this] show ?case by (simp add: 1 Let_def)
qed

text \<open>
  Claim C3.  The reference sequence that \<open>PrepareReference\<close> computes for the
  destination (buffer index -1) is, for a Transfer without sources, the fill constant in
  every element (each of the element's four bytes is \<open>MEMSET_CHAR\<close>), and for a
  Transfer with one or more sources the elementwise sum, taken in source order, of the
  reference sequences of all of its sources.
\<close>

theorem PrepareReference_dst:
  "PrepareReference h ev t buffer (-1) =
     (if Transfer.numSrcs t = 0
      then replicate (length buffer) (floatOfBytes h (replicate 4 (MEMSET_CHAR h)))
      else map (\<lambda>i. foldl (+) (srcReference h ev t (length buffer) 0 ! i)
                        (map (\<lambda>s. srcReference h ev t (length buffer) s ! i)
                           [1..<Transfer.numSrcs t]))
             [0..<length buffer])"
proof (cases "Transfer.numSrcs t = 0")
  case True
  then show ?thesis
    by (subst PrepareReference.simps) (simp add: memsetFloats_def map_replicate_const)
next
  case False
  let ?n = "length buffer"
  let ?b0 = "PrepareReference h ev t buffer 0"
  have b0: "?b0 = srcReference h ev t ?n 0"
    using PrepareReference_src_fresh [of h ev t buffer 0] by simp
  have len: "length ?b0 = ?n" by (simp add: length_PrepareReference_src)
  show ?thesis
  proof (cases "Transfer.numSrcs t > 1")
    case True
    have "PrepareReference h ev t buffer (-1) =
            fold (\<lambda>s b. let temp = srcReference h ev t ?n s in forEachElem ?n (\<lambda>i x. x + temp ! i) b)
              [1..<Transfer.numSrcs t] ?b0"
      using False True by (subst PrepareReference.simps) (simp add: Let_def srcReference_def)
    also have "\<dots> = map (\<lambda>i. foldl (+) (?b0 ! i)
                        (map (\<lambda>s. srcReference h ev t ?n s ! i) [1..<Transfer.numSrcs t])) [0..<?n]"
      by (rule add_sources [OF len])
    finally show ?thesis using False by (simp add: b0)
  next
    case F2: False
    with False have one: "Transfer.numSrcs t = 1" by simp
    have "PrepareReference h ev t buffer (-1) = ?b0"
      using one by (subst PrepareReference.simps) (simp add: Let_def)
    also have "\<dots> = map (\<lambda>i. ?b0 ! i) [0..<?n]" using len by (metis map_nth)
    finally show ?thesis using one by (simp add: b0)
  qed
qed

text \<open>
  With the example header, whose source pattern is \<open>(srcIdx + 1) * (i + 1)\<close>: three
  sources give the sums 6, 12 and 18, and no source gives the bit pattern \<open>0x75757575\<close>
  in every element.
\<close>

lemma PrepareReference_dst_example:
  "PrepareReference exampleHeader exampleEnv (twoDstTransfer\<lparr>Transfer.numSrcs := 3\<rparr>) [0, 0, 0] (-1)
     = [6, 12, 18]
   \<and> PrepareReference exampleHeader exampleEnv (twoDstTransfer\<lparr>Transfer.numSrcs := 0\<rparr>) [0, 0] (-1)
     = [0x75757575, 0x75757575]"
  by code_simp

section \<open>The parser\<close>

subsection \<open>Transfers on the DMA engine\<close>

lemma buildTransfer_dma:
  assumes "buildTransfer tabs numCpus numGpus toks nSubExecs nBytes = Inr t"
    and "exeType t = EXE_GPU_DMA"
  shows "Transfer.numSrcs t \<le> 1 \<and> Transfer.numDsts t \<le> 1"
  using assms
  by (auto simp: buildTransfer_def newTransfer_def split: prod.splits sum.splits if_splits)

lemma ParseTransfersLoop_dma:
  "ParseTransfersLoop tabs numCpus numGpus adv k st = Inr ts \<Longrightarrow> t \<in> set ts
     \<Longrightarrow> exeType t = EXE_GPU_DMA \<Longrightarrow> Transfer.numSrcs t \<le> 1 \<and> Transfer.numDsts t \<le> 1"
proof (induction k arbitrary: st ts)
  case 0
  then show ?case by simp
next
  case (Suc k)
  from Suc.prems(1) obtain toks st' tr trs where
    b: "buildTransfer tabs numCpus numGpus toks (fst st') (fst (snd st')) = Inr tr"
    and l: "ParseTransfersLoop tabs numCpus numGpus adv k st' = Inr trs"
    and ts: "ts = tr # trs"
    by (auto split: sum.splits prod.splits)
  show ?case
  proof (cases "t = tr")
    case True
    then show ?thesis using buildTransfer_dma [OF b] Suc.prems(3) by simp
  next
    case False
    then have "t \<in> set trs" using Suc.prems(2) ts by simp
    from Suc.IH [OF l this Suc.prems(3)] show ?thesis .
  qed
qed

lemma ParseTransfers_dma:
  assumes "ParseTransfers tabs line numCpus numGpus = Inr ts" and "t \<in> set ts"
    and "exeType t = EXE_GPU_DMA"
  shows "Transfer.numSrcs t \<le> 1 \<and> Transfer.numDsts t \<le> 1"
proof -
  from assms(1,2) obtain adv k st where
    "ParseTransfersLoop tabs numCpus numGpus adv k st = Inr ts"
    by (auto simp: ParseTransfers_def Let_def split: option.splits prod.splits if_splits)
  from ParseTransfersLoop_dma [OF this assms(2,3)] show ?thesis .
qed

text \<open>
  Claim C6.  A Transfer read by \<open>ParseTransfers\<close> whose executor is the device DMA
  engine and which has more than one source or more than one destination is rejected:
  once its three tokens have parsed, the loop body ends the process with the message
  that the GPU DMA executor can only be used for single source / single destination
  Transfers; and whenever \<open>main\<close> goes on to \<open>ExecuteTransfers\<close>, where all buffers are
  allocated, every DMA Transfer it passes on has at most one source and at most one
  destination.
\<close>

theorem dma_single_endpoint:
  "(ParseMemType tabs srcTok numCpus numGpus = Inr (srcTypes, srcIndices)
      \<and> ParseMemType tabs dstTok numCpus numGpus = Inr (dstTypes, dstIndices)
      \<and> ParseExeType tabs exeTok numCpus numGpus = Inr (EXE_GPU_DMA, exeIdx)
      \<and> (length srcTypes > 1 \<or> length dstTypes > 1)
    \<longrightarrow> (buildTransfer tabs numCpus numGpus (srcTok, exeTok, dstTok) nSubExecs nBytes
           :: error + ('t::zero) Transfer)
        = Inl (Fatal ''[ERROR] GPU DMA executor can only be used for single source / single dst Transfers''))
   \<and> (mainLine tabs line numCpus numGpus = Executes ts \<and> t \<in> set ts \<and> exeType t = EXE_GPU_DMA
    \<longrightarrow> Transfer.numSrcs (t :: ('t::zero) Transfer) \<le> 1 \<and> Transfer.numDsts t \<le> 1)"
proof (intro conjI impI)
  assume a: "ParseMemType tabs srcTok numCpus numGpus = Inr (srcTypes, srcIndices)
      \<and> ParseMemType tabs dstTok numCpus numGpus = Inr (dstTypes, dstIndices)
      \<and> ParseExeType tabs exeTok numCpus numGpus = Inr (EXE_GPU_DMA, exeIdx)
      \<and> (length srcTypes > 1 \<or> length dstTypes > 1)"
  then show "(buildTransfer tabs numCpus numGpus (srcTok, exeTok, dstTok) nSubExecs nBytes
           :: error + 't Transfer)
        = Inl (Fatal ''[ERROR] GPU DMA executor can only be used for single source / single dst Transfers'')"
    by (auto simp: buildTransfer_def)
next
  assume b: "mainLine tabs line numCpus numGpus = Executes ts \<and> t \<in> set ts \<and> exeType t = EXE_GPU_DMA"
  then have "ParseTransfers tabs line numCpus numGpus = Inr ts"
    by (auto simp: mainLine_def split: sum.splits if_splits)
  from ParseTransfers_dma [OF this] b
  show "Transfer.numSrcs t \<le> 1" and "Transfer.numDsts t \<le> 1" by simp_all
qed


text \<open>
  Both halves on concrete input: the tokens \<open>G0G1 D0 G1\<close> are rejected, and the line
  \<open>1 4 (G0->D0->G1)\<close> is passed on with one source and one destination.
\<close>

theorem dma_single_endpoint_witness:
  "ParseMemType exampleTables ''G0G1'' 2 4 = Inr ([MEM_GPU, MEM_GPU], [0, 1])
   \<and> ParseMemType exampleTables ''G1'' 2 4 = Inr ([MEM_GPU], [1])
   \<and> ParseExeType exampleTables ''D0'' 2 4 = Inr (EXE_GPU_DMA, 0)
   \<and> (buildTransfer exampleTables 2 4 (''G0G1'', ''D0'', ''G1'') 4 0 :: error + int Transfer)
        = Inl (Fatal ''[ERROR] GPU DMA executor can only be used for single source / single dst Transfers'')
   \<and> (mainLine exampleTables ''1 4 (G0->D0->G1)'' 2 4 :: int lineAction)
        = Executes (projr (ParseTransfers exampleTables ''1 4 (G0->D0->G1)'' 2 4))
   \<and> exeType (hd (projr (ParseTransfers exampleTables ''1 4 (G0->D0->G1)'' 2 4 :: error + int Transfer list)))
        = EXE_GPU_DMA
   \<and> Transfer.numSrcs (hd (projr (ParseTransfers exampleTables ''1 4 (G0->D0->G1)'' 2 4 :: error + int Transfer list))) \<le> 1
   \<and> Transfer.numDsts (hd (projr (ParseTransfers exampleTables ''1 4 (G0->D0->G1)'' 2 4 :: error + int Transfer list))) \<le> 1"
proof -
  let ?ts = "projr (ParseTransfers exampleTables ''1 4 (G0->D0->G1)'' 2 4 :: error + int Transfer list)"
  have s: "ParseMemType exampleTables ''G0G1'' 2 4 = Inr ([MEM_GPU, MEM_GPU], [0, 1])" by code_simp
  have d: "ParseMemType exampleTables ''G1'' 2 4 = Inr ([MEM_GPU], [1])" by code_simp
  have e: "ParseExeType exampleTables ''D0'' 2 4 = Inr (EXE_GPU_DMA, 0)" by code_simp
  have m: "(mainLine exampleTables ''1 4 (G0->D0->G1)'' 2 4 :: int lineAction) = Executes ?ts"
    by code_simp
  have i: "hd ?ts \<in> set ?ts" by code_simp
  have x: "exeType (hd ?ts) = EXE_GPU_DMA" by code_simp
  note inst = dma_single_endpoint [where tabs = exampleTables and srcTok = "''G0G1''"
      and dstTok = "''G1''" and exeTok = "''D0''" and numCpus = 2 and numGpus = 4
      and srcTypes = "[MEM_GPU, MEM_GPU]" and srcIndices = "[0, 1]" and dstTypes = "[MEM_GPU]"
      and dstIndices = "[1]" and exeIdx = 0 and nSubExecs = 4 and nBytes = 0
      and line = "''1 4 (G0->D0->G1)''" and ts = ?ts and t = "hd ?ts"]
  from inst s d e m i x show ?thesis by simp
qed

subsection \<open>Lines without a Transfer count\<close>

text \<open>
  Claim C10.  When the leading token of a line cannot be read as an integer Transfer
  count (the extraction \<open>iss >> numTransfers\<close> sets the fail bit), \<open>ParseTransfers\<close>
  returns normally with an empty Transfer list, and the loop over the lines of the
  configuration file skips the line and goes on to the next one.
\<close>

theorem unparsable_count_skips_line:
  assumes "streamInt (blankSeparators line) = None"
  shows "(ParseTransfers tabs line numCpus numGpus :: error + ('t::zero) Transfer list) = Inr []
         \<and> (mainLine tabs line numCpus numGpus :: 't lineAction) = NextLine"
  using assms by (simp add: ParseTransfers_def mainLine_def)

text \<open>A comment line, for instance.\<close>

theorem unparsable_count_skips_line_witness:
  "streamInt (blankSeparators ''# (G0->G0->G1)'') = None
   \<and> (ParseTransfers exampleTables ''# (G0->G0->G1)'' 2 4 :: error + int Transfer list) = Inr []
   \<and> (mainLine exampleTables ''# (G0->G0->G1)'' 2 4 :: int lineAction) = NextLine"
proof -
  have h: "streamInt (blankSeparators ''# (G0->G0->G1)'') = None" by code_simp
  from unparsable_count_skips_line [OF h, of exampleTables 2 4, where 't = int] h
  show ?thesis by simp
qed

subsection \<open>Byte counts that are not a multiple of the element size\<close>

text \<open>The run-wide byte count of the command line is checked: what passes is a multiple of 4.\<close>

lemma mainNumBytes_multiple_of_4:
  "mainNumBytes dflt arg2 = Inr n \<Longrightarrow> n mod 4 = 0"
  by (auto simp: mainNumBytes_def Let_def split: if_splits)

text \<open>
  Claim C8 asks the same of the per-Transfer byte counts of advanced mode.  The code
  has no such test there: the line \<open>-1 (G0->G0->G1 4 1001)\<close> is read without an error,
  its Transfer goes on to \<open>ExecuteTransfers\<close> with a byte count of 1001, and 1001
  becomes the number of bytes the Transfer moves, which is not a whole number of
  elements.
\<close>

theorem advanced_numBytes_not_checked:
  "(mainLine exampleTables ''-1 (G0->G0->G1 4 1001)'' 2 4 :: int lineAction)
     = Executes (projr (ParseTransfers exampleTables ''-1 (G0->G0->G1 4 1001)'' 2 4))
   \<and> map numBytes (projr (ParseTransfers exampleTables ''-1 (G0->G0->G1 4 1001)'' 2 4 :: error + int Transfer list))
     = [1001]
   \<and> map (numBytesActual \<circ> setNumBytesActual 256)
         (projr (ParseTransfers exampleTables ''-1 (G0->G0->G1 4 1001)'' 2 4 :: error + int Transfer list))
     = [1001]
   \<and> (1001::nat) mod 4 \<noteq> 0"
proof -
  have a: "(mainLine exampleTables ''-1 (G0->G0->G1 4 1001)'' 2 4 :: int lineAction)
     = Executes (projr (ParseTransfers exampleTables ''-1 (G0->G0->G1 4 1001)'' 2 4))"
    by code_simp
  have b: "map numBytes (projr (ParseTransfers exampleTables ''-1 (G0->G0->G1 4 1001)'' 2 4 :: error + int Transfer list))
     = [1001]"
    by code_simp
  have "length (projr (ParseTransfers exampleTables ''-1 (G0->G0->G1 4 1001)'' 2 4 :: error + int Transfer list)) = 1"
    using b by (metis length_map length_Cons list.size(3) One_nat_def)
  then obtain t where t: "projr (ParseTransfers exampleTables ''-1 (G0->G0->G1 4 1001)'' 2 4 :: error + int Transfer list) = [t]"
    by (auto simp: length_Suc_conv)
  have c: "map (numBytesActual \<circ> setNumBytesActual 256)
         (projr (ParseTransfers exampleTables ''-1 (G0->G0->G1 4 1001)'' 2 4 :: error + int Transfer list))
     = [1001]"
    using b unfolding t by (simp add: setNumBytesActual_def)
  show ?thesis using a b c by simp
qed


text \<open>
  A line whose count is \<open>INT_MIN\<close>: \<open>abs\<close> leaves the count negative, the loop makes no
  pass, and \<open>main\<close> goes on to the next line.
\<close>

lemma ParseTransfers_INT_MIN:
  "(mainLine exampleTables ''-2147483648 (G0->G0->G1 4 1001)'' 2 4 :: int lineAction) = NextLine"
  by (simp add: mainLine_def ParseTransfers_def streamInt_def scanInt_def blankSeparators_def
        abs_int_def digitsValue_def isspace_def isdigit_def Let_def)
section \<open>The memory resource manager\<close>

text \<open>
  Claim C5.  For every memory type and index, and whatever the runtime would answer, a
  request for 0 bytes ends the process with the message that 0 bytes cannot be
  allocated: \<open>AllocateMemory\<close> returns no handle, null or other.
\<close>

theorem AllocateMemory_zero_bytes:
  "AllocateMemory rt memType devIndex 0 = Inl (Fatal ''[ERROR] Unable to allocate 0 bytes'')
   \<and> (\<forall>p. AllocateMemory rt memType devIndex 0 \<noteq> Inr p)"
  by (simp add: AllocateMemory_def)

section \<open>The validator\<close>

lemma find_upt_takeWhile:
  assumes "find P [0..<n] = Some k"
  shows "takeWhile (\<lambda>i. \<not> P i) [0..<n] = [0..<k] \<and> k < n"
proof -
  from assms obtain i where i: "i < n" "P i" "k = i" "\<forall>j<i. \<not> P j"
    by (auto simp: find_Some_iff)
  have "takeWhile (\<lambda>i. \<not> P i) [0..<n] = take k [0..<n]"
    by (rule takeWhile_eq_take_P_nth) (use i in auto)
  then show ?thesis using i by (simp add: take_upt)
qed

lemma readSrcVals_eq:
  "readSrcVals rt mem t initOffset i srcIdxs =
     (if list_all (\<lambda>srcIdx. hipMemcpy rt (srcMem t ! srcIdx + initOffset + i) 4) srcIdxs
      then Inr (map (\<lambda>srcIdx. mem (srcMem t ! srcIdx + initOffset + i)) srcIdxs)
      else Inl (Fatal ''HIP_CALL''))"
  by (induction srcIdxs) (simp_all add: HIP_CALL_def)

lemma compareElems_continue:
  assumes c: "continueOnError ev"
  shows "compareElems rt h ev mem t reference initOffset dstIdx idxs =
     (case find (\<lambda>i. floatNe h (reference ! i) (mem (dstMem t ! dstIdx + initOffset + i))) idxs of
        None \<Rightarrow> Inr (map (Compared dstIdx) idxs)
      | Some k \<Rightarrow>
          if list_all (\<lambda>srcIdx. hipMemcpy rt (srcMem t ! srcIdx + initOffset + k) 4)
               [0..<Transfer.numSrcs t]
          then Inr (map (Compared dstIdx)
                      (takeWhile (\<lambda>i. \<not> floatNe h (reference ! i) (mem (dstMem t ! dstIdx + initOffset + i))) idxs)
                    @ [Compared dstIdx k,
                       Mismatch (transferIndex t) dstIdx k
                         (map (\<lambda>srcIdx. mem (srcMem t ! srcIdx + initOffset + k)) [0..<Transfer.numSrcs t])
                         (reference ! k) (mem (dstMem t ! dstIdx + initOffset + k))])
          else Inl (Fatal ''HIP_CALL''))"
  using c by (induction idxs) (auto simp: Let_def readSrcVals_eq split: option.splits)

lemma compareElems_dstTrace:
  assumes c: "continueOnError ev"
    and ok: "dstCallsSucceed rt st h ev mem t reference initOffset nElems dstIdx"
  shows "compareElems rt h ev mem t reference initOffset dstIdx [0..<nElems]
           = Inr (dstTrace h mem t reference initOffset nElems dstIdx)"
proof -
  let ?P = "\<lambda>i. floatNe h (reference ! i) (mem (dstMem t ! dstIdx + initOffset + i))"
  show ?thesis
  proof (cases "find ?P [0..<nElems]")
    case None
    then show ?thesis by (simp add: compareElems_continue [OF c] dstTrace_def)
  next
    case (Some k)
    from find_upt_takeWhile [OF Some]
    have "takeWhile (\<lambda>i. \<not> ?P i) [0..<nElems] = [0..<k]" by simp
    then show ?thesis using Some ok
      by (simp add: compareElems_continue [OF c] dstTrace_def dstCallsSucceed_def)
  qed
qed

lemma compareElems_fails:
  assumes c: "continueOnError ev"
    and host: "copyToHost rt st ev t initOffset dstIdx = Inr ()"
    and bad: "\<not> dstCallsSucceed rt st h ev mem t reference initOffset nElems dstIdx"
  shows "compareElems rt h ev mem t reference initOffset dstIdx [0..<nElems] = Inl (Fatal ''HIP_CALL'')"
  using host bad
  by (auto simp: compareElems_continue [OF c] dstCallsSucceed_def split: option.splits)

lemma collectBusIds_error:
  "collectBusIds rt is = Inl e \<Longrightarrow> e = Fatal ''HIP_CALL''"
  by (induction "is" arbitrary: e) (auto split: option.splits sum.splits)

lemma RemappedIndex_error:
  assumes "RemappedIndex rt st origIdx isCpuType = Inl e"
  shows "e \<noteq> mismatchExit"
  using assms collectBusIds_error [of rt _ e]
  by (auto simp: RemappedIndex_def buildRemappingGpu_def lookupIndex_def mismatchExit_def Let_def
           split: if_splits option.splits sum.splits)

lemma copyToHost_error:
  assumes "copyToHost rt st ev t initOffset dstIdx = Inl e"
  shows "e \<noteq> mismatchExit"
  using assms RemappedIndex_error [of rt st _ False e]
  by (auto simp: copyToHost_def HIP_CALL_def mismatchExit_def split: if_splits sum.splits)

lemma validateDsts_continue:
  assumes c: "continueOnError ev"
  shows "(list_all (dstCallsSucceed rt st h ev mem t reference initOffset nElems) ds \<longrightarrow>
            validateDsts rt st h ev mem t reference initOffset nElems ds
              = Inr (concat (map (dstTrace h mem t reference initOffset nElems) ds)))
       \<and> (\<not> list_all (dstCallsSucceed rt st h ev mem t reference initOffset nElems) ds \<longrightarrow>
            (\<exists>e. validateDsts rt st h ev mem t reference initOffset nElems ds = Inl e
                  \<and> e \<noteq> mismatchExit))"
proof (induction ds)
  case Nil
  show ?case by simp
next
  case (Cons d ds)
  show ?case
  proof (cases "dstCallsSucceed rt st h ev mem t reference initOffset nElems d")
    case True
    then have host: "copyToHost rt st ev t initOffset d = Inr ()"
      by (simp add: dstCallsSucceed_def)
    show ?thesis using Cons.IH True
      by (auto simp: host compareElems_dstTrace [OF c True])
  next
    case False
    show ?thesis
    proof (cases "copyToHost rt st ev t initOffset d")
      case (Inl e)
      then show ?thesis using False copyToHost_error [OF Inl] by simp
    next
      case (Inr u)
      then have host: "copyToHost rt st ev t initOffset d = Inr ()" by simp
      show ?thesis using False
        by (simp add: host compareElems_fails [OF c host False] mismatchExit_def)
    qed
  qed
qed

text \<open>
  Claim C7, as the code has it.  In continue-on-error mode, when the device calls the
  validator makes succeed, \<open>ValidateDst\<close> returns (it does not end the process), and
  for each destination buffer in turn it compares the elements up to and including the
  first mismatching one, reports that mismatch with the Transfer's index, the
  destination and element index, the source values, the expected value and the value
  found, and skips the remaining comparisons of that destination buffer; the
  destination buffers that follow are still compared.  When one of the device calls
  fails, the process ends there, through \<open>HIP_CALL\<close> or a trap of \<open>RemappedIndex\<close>; in
  this mode it never ends through the exit of the mismatch report.
\<close>

theorem ValidateDst_continue:
  assumes "continueOnError ev"
  shows "(deviceCallsSucceed rt st h ev mem t \<longrightarrow>
            ValidateDst rt st h ev mem t =
              Inr (concat (map (dstTrace h mem t
                                  (PrepareReference h ev t (replicate (numBytesActual t div 4) 0) (-1))
                                  (byteOffset ev div 4) (numBytesActual t div 4))
                             [0..<Transfer.numDsts t])))
       \<and> (\<not> deviceCallsSucceed rt st h ev mem t \<longrightarrow>
            (\<exists>e. ValidateDst rt st h ev mem t = Inl e \<and> e \<noteq> mismatchExit))"
proof (cases "Transfer.numDsts t = 0")
  case True
  then show ?thesis by (simp add: ValidateDst_def deviceCallsSucceed_def)
next
  case False
  then show ?thesis
    using validateDsts_continue [OF assms, of rt st h mem t
            "PrepareReference h ev t (replicate (numBytesActual t div 4) 0) (-1)"
            "byteOffset ev div 4" "numBytesActual t div 4" "[0..<Transfer.numDsts t]"]
    by (simp add: ValidateDst_def deviceCallsSucceed_def Let_def)
qed

text \<open>
  The trace for the Transfer whose first destination is on a device and whose two
  destinations are both wrong in their only element, in a runtime whose calls succeed;
  and the same Transfer in the runtime whose \<open>hipMemcpy\<close> fails.
\<close>

theorem ValidateDst_continue_witness:
  "continueOnError exampleEnv \<and>
   deviceCallsSucceed exampleRuntime exampleRemapping exampleHeader exampleEnv exampleMem deviceDstTransfer \<and>
   ValidateDst exampleRuntime exampleRemapping exampleHeader exampleEnv exampleMem deviceDstTransfer =
     Inr [Compared 0 0, Mismatch 0 0 0 [1] 1 7, Compared 1 0, Mismatch 0 1 0 [1] 1 7] \<and>
   \<not> deviceCallsSucceed failingRuntime exampleRemapping exampleHeader exampleEnv exampleMem deviceDstTransfer \<and>
   (\<exists>e. ValidateDst failingRuntime exampleRemapping exampleHeader exampleEnv exampleMem deviceDstTransfer
          = Inl e \<and> e \<noteq> mismatchExit)"
proof -
  have c: "continueOnError exampleEnv" by (simp add: exampleEnv_def)
  have ok: "deviceCallsSucceed exampleRuntime exampleRemapping exampleHeader exampleEnv exampleMem
              deviceDstTransfer"
    by code_simp
  have bad: "\<not> deviceCallsSucceed failingRuntime exampleRemapping exampleHeader exampleEnv exampleMem
               deviceDstTransfer"
    by code_simp
  have "concat (map (dstTrace exampleHeader exampleMem deviceDstTransfer
                       (PrepareReference exampleHeader exampleEnv deviceDstTransfer
                          (replicate (numBytesActual deviceDstTransfer div 4) 0) (-1))
                       (byteOffset exampleEnv div 4) (numBytesActual deviceDstTransfer div 4))
                  [0..<Transfer.numDsts deviceDstTransfer])
        = [Compared 0 0, Mismatch 0 0 0 [1] 1 7, Compared 1 0, Mismatch 0 1 0 [1] 1 7]"
    by code_simp
  then show ?thesis
    using ValidateDst_continue [OF c, of exampleRuntime exampleRemapping exampleHeader exampleMem
            deviceDstTransfer]
          ValidateDst_continue [OF c, of failingRuntime exampleRemapping exampleHeader exampleMem
            deviceDstTransfer]
          c ok bad
    by simp
qed

text \<open>
  On the Transfer with two host destinations the validator compares destination 1 after
  it has reported the mismatch in destination 0: the remaining comparisons of the
  Transfer are not all skipped.
\<close>

theorem ValidateDst_compares_next_destination:
  "continueOnError exampleEnv
   \<and> ValidateDst exampleRuntime exampleRemapping exampleHeader exampleEnv exampleMem twoDstTransfer
       = Inr (projr (ValidateDst exampleRuntime exampleRemapping exampleHeader exampleEnv exampleMem
                       twoDstTransfer))
   \<and> \<not> stopsAfterMismatch
         (projr (ValidateDst exampleRuntime exampleRemapping exampleHeader exampleEnv exampleMem
                   twoDstTransfer))"
  by code_simp

text \<open>
  With a \<open>hipMemcpy\<close> that fails, the copy of the device destination ends the process in
  continue-on-error mode too, and so does the copy of a source value inside the report
  of a mismatch in a host destination.
\<close>

lemma ValidateDst_device_call_fails:
  "continueOnError exampleEnv
   \<and> ValidateDst failingRuntime exampleRemapping exampleHeader exampleEnv exampleMem deviceDstTransfer
       = Inl (Fatal ''HIP_CALL'')
   \<and> ValidateDst failingRuntime exampleRemapping exampleHeader exampleEnv exampleMem twoDstTransfer
       = Inl (Fatal ''HIP_CALL'')"
  by code_simp

lemma RemappedIndex_example:
  "RemappedIndex exampleRuntime exampleRemapping 1 False = Inr 1
   \<and> RemappedIndex exampleRuntime \<lparr>remappingCpu = [], remappingGpu = []\<rparr> 1 False = Inr 1
   \<and> RemappedIndex (exampleRuntime\<lparr>USE_PCIE_INDEX := 1,
        hipDeviceGetPCIBusId := (\<lambda>deviceIdx. Some (if deviceIdx = 0 then ''0000:83:00.0'' else ''0000:03:00.0''))\<rparr>)
        \<lparr>remappingCpu = [], remappingGpu = []\<rparr> 0 False = Inr 1
   \<and> RemappedIndex exampleRuntime exampleRemapping 2 False
       = Inl (Trap ''remapping[origIdx] outside the vector'')
   \<and> RemappedIndex (exampleRuntime\<lparr>hipGetDeviceCount := None\<rparr>)
        \<lparr>remappingCpu = [], remappingGpu = []\<rparr> 0 True = Inl (Fatal ''HIP_CALL'')"
  by code_simp
section \<open>The dispatcher\<close>

text \<open>When the runtime plays along, \<open>RunTransfer\<close> returns, for every executor.\<close>

lemma RunTransfer_returns:
  assumes "hipOk hw" and "numaRunOnNodeOk hw"
  shows "\<exists>exeInfo'. RunTransfer hw ev iteration exeInfo transferIdx = Inr exeInfo'"
  using assms by (simp add: RunTransfer_def HIP_CALL_def Let_def)

text \<open>
  Claim C9.  For every executor kind and every warm-up iteration (iteration index
  below 0), a call of \<open>RunTransfer\<close> that returns leaves the timing state as it was:
  every Transfer of the group is unchanged, in particular its accumulated
  \<open>transferTime\<close> and its per-iteration samples, and so is the group's \<open>totalTime\<close>; and
  the pass of the iteration loop that follows adds nothing to the number of timed
  iterations nor to the total CPU time.
\<close>

theorem warmup_leaves_timing:
  assumes "iteration < 0"
    and "RunTransfer hw ev iteration exeInfo transferIdx = Inr exeInfo'"
  shows "transfers exeInfo' = transfers exeInfo
         \<and> map transferTime (transfers exeInfo') = map transferTime (transfers exeInfo)
         \<and> map perIterationTime (transfers exeInfo') = map perIterationTime (transfers exeInfo)
         \<and> totalTime exeInfo' = totalTime exeInfo
         \<and> accountIteration iteration deltaSec (numTimedIterations, totalCpuTime)
             = (numTimedIterations, totalCpuTime)"
proof -
  have "transfers exeInfo' = transfers exeInfo \<and> totalTime exeInfo' = totalTime exeInfo"
    using assms
    by (auto simp: RunTransfer_def HIP_CALL_def Let_def split: if_splits)
  then show ?thesis using assms(1) by (simp add: accountIteration_def)
qed

text \<open>Iteration -1 on the example group.\<close>

theorem warmup_leaves_timing_witness:
  "(-1::int) < 0
   \<and> RunTransfer exampleLaunch exampleEnv (-1) exampleGroup 0 = Inr exampleGroup
   \<and> transfers exampleGroup = [exampleTransfer]
   \<and> accountIteration (-1) (3::int) (0, 0) = (0, 0)"
proof -
  have h1: "(-1::int) < 0" by simp
  have h2: "RunTransfer exampleLaunch exampleEnv (-1) exampleGroup 0 = Inr exampleGroup"
    by code_simp
  have t: "transfers exampleGroup = [exampleTransfer]" by (simp add: exampleGroup_def)
  from warmup_leaves_timing [OF h1 h2, of "3::int" 0 0] h1 h2 t show ?thesis by simp
qed

text \<open>Iteration 0 on the same group does record the time.\<close>

lemma timed_iteration_records:
  "map transferTime (transfers (projr (RunTransfer exampleLaunch exampleEnv 0 exampleGroup 0))) = [7]
   \<and> accountIteration 0 (3::int) (0, 0) = (1, 3)"
  by code_simp


text \<open>
  A Transfer that names no slot keeps the two initial bounds, and their difference wraps
  around to 1.
\<close>

lemma timeFromCycles_no_units:
  "transferTime (timeFromCycles exampleLaunch exampleEnv [] exampleTransfer) = 1"
  by (simp add: timeFromCycles_def exampleLaunch_def exampleEnv_def exampleTransfer_def
        LLONG_MAX_def LLONG_MIN_def wrapLongLong_def Let_def)
section \<open>Merging the parameter lists of a group\<close>

subsection \<open>Sequential placement\<close>

text \<open>
  Under the sequential branch the merged vector is the concatenation of the Transfers'
  unit lists, and every Transfer's positions hold its own units in order, whatever its
  \<open>subExecIdx\<close> held before: this branch clears it.
\<close>

lemma mergeSequential_spec:
  assumes "prepared ts"
  shows "fst (mergeSequential (int (length temp0)) temp0 ts) = temp0 @ concat (map subExecParam ts)
       \<and> map subExecParam (snd (mergeSequential (int (length temp0)) temp0 ts)) = map subExecParam ts
       \<and> (\<forall>tmp. list_all (ownUnits (temp0 @ concat (map subExecParam ts) @ tmp))
                   (snd (mergeSequential (int (length temp0)) temp0 ts)))"
  using assms
proof (induction ts arbitrary: temp0)
  case Nil
  show ?case by simp
next
  case (Cons t ts)
  let ?temp1 = "temp0 @ subExecParam t"
  let ?t' = "t\<lparr>subExecParamGpuPtr := nat (int (length temp0)),
              subExecIdx := map (\<lambda>k. nat (int (length temp0) + int k)) [0..<length (subExecParam t)]\<rparr>"
  from Cons.prems have t: "0 \<le> numSubExecs t" "length (subExecParam t) = nat (numSubExecs t)"
    and ts: "prepared ts" by (simp_all add: prepared_def)
  have off: "int (length temp0) + numSubExecs t = int (length ?temp1)" using t by simp
  note IH = Cons.IH [OF ts, of ?temp1]
  have step: "mergeSequential (int (length temp0)) temp0 (t # ts)
        = (fst (mergeSequential (int (length ?temp1)) ?temp1 ts),
           ?t' # snd (mergeSequential (int (length ?temp1)) ?temp1 ts))"
    by (simp add: Let_def off split: prod.splits)
  have own: "ownUnits (temp0 @ concat (map subExecParam (t # ts)) @ tmp) ?t'" for tmp
  proof -
    have "map (\<lambda>i. (temp0 @ subExecParam t @ concat (map subExecParam ts) @ tmp) ! i)
            (map (\<lambda>k. length temp0 + k) [0..<length (subExecParam t)])
          = map (\<lambda>k. subExecParam t ! k) [0..<length (subExecParam t)]"
      by (simp add: nth_append)
    then have "map (\<lambda>i. (temp0 @ subExecParam t @ concat (map subExecParam ts) @ tmp) ! i)
            (map (\<lambda>k. length temp0 + k) [0..<length (subExecParam t)]) = subExecParam t"
      by (simp only: map_nth)
    moreover have "(\<lambda>k. nat (int (length temp0) + int k)) = (\<lambda>k. length temp0 + k)"
      by (rule ext) simp
    ultimately show ?thesis by (simp add: ownUnits_def list_all_iff)
  qed
  have rest: "list_all (ownUnits (temp0 @ concat (map subExecParam (t # ts)) @ tmp))
                (snd (mergeSequential (int (length ?temp1)) ?temp1 ts))" for tmp
    using IH by simp
  show ?case unfolding step using IH own rest by simp
qed

lemma ownUnits_coversExactly:
  assumes "mset temp = mset (concat (map subExecParam ts'))" and "list_all (ownUnits temp) ts'"
  shows "coversExactly temp ts'"
proof -
  have "mset (map (\<lambda>i. temp ! i) (subExecIdx t)) = mset (subExecParam t)"
    if "t \<in> set ts'" for t
    using assms(2) that by (simp add: ownUnits_def list_all_iff)
  then show ?thesis using assms by (simp add: coversExactly_def ownUnits_def list_all_iff)
qed

lemma sequential_covers:
  assumes "prepared (transfers exeInfo)"
    and "\<not> useSingleStream ev \<or> blockOrder ev = ORDER_SEQUENTIAL"
  shows "\<exists>temp ts'. mergeSubExecParams ev shuffle exeInfo = Some (temp, ts')
           \<and> map subExecParam ts' = map subExecParam (transfers exeInfo)
           \<and> temp = concat (map subExecParam (transfers exeInfo))
           \<and> list_all (ownUnits temp) ts'
           \<and> coversExactly temp ts'"
proof -
  let ?r = "mergeSequential 0 [] (transfers exeInfo)"
  from mergeSequential_spec [OF assms(1), of "[]"]
  have 1: "fst ?r = concat (map subExecParam (transfers exeInfo))"
    and 2: "map subExecParam (snd ?r) = map subExecParam (transfers exeInfo)"
    and 3: "\<forall>tmp. list_all (ownUnits (concat (map subExecParam (transfers exeInfo)) @ tmp)) (snd ?r)"
    by simp_all
  from 3 have 4: "list_all (ownUnits (fst ?r)) (snd ?r)" using 1 by (metis append_Nil2)
  have "mset (fst ?r) = mset (concat (map subExecParam (snd ?r)))" using 1 2 by simp
  from ownUnits_coversExactly [OF this 4] have 5: "coversExactly (fst ?r) (snd ?r)" .
  have "mergeSubExecParams ev shuffle exeInfo = Some (fst ?r, snd ?r)"
    using assms(2) by (auto simp: mergeSubExecParams_def Let_def)
  then show ?thesis using 1 2 4 5 by simp
qed

subsection \<open>Random placement\<close>

text \<open>
  Under the random branch, for Transfers whose \<open>subExecIdx\<close> is empty when the branch
  is entered and a shuffle that returns a rearrangement of its argument, the merged
  vector is a rearrangement of all units and every Transfer's positions hold its own
  units (lemma \<open>random_covers\<close> at the end of this part).
\<close>

lemma concat_single:
  "i < L \<Longrightarrow> concat (map (\<lambda>j. if j = i then f j else []) [0..<L]) = f i"
proof (induction L)
  case 0
  then show ?case by simp
next
  case (Suc L)
  show ?case
  proof (cases "i = L")
    case True
    have "concat (map (\<lambda>j. if j = i then f j else []) [0..<L]) = []"
      using True by (simp add: concat_eq_Nil_conv)
    then show ?thesis using True by simp
  next
    case False
    with Suc have "concat (map (\<lambda>j. if j = i then f j else []) [0..<L]) = f i" by simp
    then show ?thesis using False by simp
  qed
qed

lemma filter_pairs:
  "filter (\<lambda>p. fst p = i) (map (\<lambda>k. (j, k)) ks) = (if j = i then map (\<lambda>k. (j, k)) ks else [])"
  by (induction ks) auto

lemma filter_unitIndices:
  assumes "i < length ts"
  shows "filter (\<lambda>p. fst p = i) (unitIndices ts) = map (\<lambda>k. (i, k)) [0..<nat (numSubExecs (ts ! i))]"
proof -
  have "filter (\<lambda>p. fst p = i) (unitIndices ts)
        = concat (map (\<lambda>j. if j = i then map (\<lambda>k. (j, k)) [0..<nat (numSubExecs (ts ! j))] else [])
                    [0..<length ts])"
    by (simp add: unitIndices_def filter_concat o_def filter_pairs)
  also have "\<dots> = map (\<lambda>k. (i, k)) [0..<nat (numSubExecs (ts ! i))]"
    using concat_single [OF assms, of "\<lambda>j. map (\<lambda>k. (j, k)) [0..<nat (numSubExecs (ts ! j))]"] .
  finally show ?thesis .
qed

lemma unitIndices_fst: "p \<in> set (unitIndices ts) \<Longrightarrow> fst p < length ts"
  by (auto simp: unitIndices_def)

lemma map_unit_unitIndices:
  assumes "prepared ts"
  shows "map (\<lambda>p. subExecParam (ts ! fst p) ! snd p) (unitIndices ts) = concat (map subExecParam ts)"
proof -
  have len: "length (subExecParam (ts ! i)) = nat (numSubExecs (ts ! i))" if "i < length ts" for i
    using assms that by (simp add: prepared_def list_all_length)
  have "map (\<lambda>p. subExecParam (ts ! fst p) ! snd p) (unitIndices ts)
        = concat (map (\<lambda>i. map (\<lambda>k. subExecParam (ts ! i) ! k) [0..<nat (numSubExecs (ts ! i))])
                    [0..<length ts])"
    by (simp add: unitIndices_def map_concat o_def)
  also have "\<dots> = concat (map (\<lambda>i. subExecParam (ts ! i)) [0..<length ts])"
  proof (rule arg_cong [where f = concat], rule map_cong [OF refl])
    fix i assume "i \<in> set [0..<length ts]"
    then have "i < length ts" by simp
    from len [OF this] have "[0..<nat (numSubExecs (ts ! i))] = [0..<length (subExecParam (ts ! i))]"
      by simp
    then show "map (\<lambda>k. subExecParam (ts ! i) ! k) [0..<nat (numSubExecs (ts ! i))]
        = subExecParam (ts ! i)"
      by (simp only: map_nth)
  qed
  also have "\<dots> = concat (map subExecParam (map (\<lambda>i. ts ! i) [0..<length ts]))"
    by (simp add: o_def)
  also have "\<dots> = concat (map subExecParam ts)"
    by (simp only: map_nth)
  finally show ?thesis .
qed


lemma placeUnit_fold_inv:
  assumes fresh: "\<forall>t\<in>set ts0. subExecIdx t = []"
    and bound: "\<forall>p\<in>set ps. fst p < length ts0"
  shows "fst (fold placeUnit ps ([], ts0)) = map (\<lambda>p. subExecParam (ts0 ! fst p) ! snd p) ps
       \<and> length (snd (fold placeUnit ps ([], ts0))) = length ts0
       \<and> (\<forall>i<length ts0.
             subExecParam (snd (fold placeUnit ps ([], ts0)) ! i) = subExecParam (ts0 ! i)
           \<and> list_all (\<lambda>j. j < length ps) (subExecIdx (snd (fold placeUnit ps ([], ts0)) ! i))
           \<and> map (\<lambda>j. map (\<lambda>p. subExecParam (ts0 ! fst p) ! snd p) ps ! j)
                 (subExecIdx (snd (fold placeUnit ps ([], ts0)) ! i))
               = map (\<lambda>p. subExecParam (ts0 ! fst p) ! snd p) (filter (\<lambda>p. fst p = i) ps))"
  using bound
proof (induction ps rule: rev_induct)
  case Nil
  show ?case using fresh by simp
next
  case (snoc p ps)
  define U where "U = (\<lambda>p. subExecParam (ts0 ! fst p) ! snd p)"
  define temp where "temp = fst (fold placeUnit ps ([], ts0))"
  define ts where "ts = snd (fold placeUnit ps ([], ts0))"
  from snoc.prems have b: "\<forall>p\<in>set ps. fst p < length ts0" and p: "fst p < length ts0" by simp_all
  from snoc.IH [OF b]
  have temp: "temp = map U ps" and len: "length ts = length ts0"
    and inv: "\<forall>i<length ts0. subExecParam (ts ! i) = subExecParam (ts0 ! i)
                \<and> list_all (\<lambda>j. j < length ps) (subExecIdx (ts ! i))
                \<and> map (\<lambda>j. map U ps ! j) (subExecIdx (ts ! i)) = map U (filter (\<lambda>p. fst p = i) ps)"
    unfolding temp_def ts_def U_def by simp_all
  define ts' where "ts' = ts[fst p := (ts ! fst p)\<lparr>subExecIdx := subExecIdx (ts ! fst p) @ [length temp]\<rparr>]"
  have st: "fold placeUnit (ps @ [p]) ([], ts0) = (temp @ [subExecParam (ts ! fst p) ! snd p], ts')"
    by (simp add: placeUnit_def Let_def temp_def ts_def ts'_def)
  have up: "subExecParam (ts ! fst p) ! snd p = U p" using inv p by (simp add: U_def)
  have t1: "temp @ [subExecParam (ts ! fst p) ! snd p] = map U (ps @ [p])" by (simp add: temp up)
  have l1: "length ts' = length ts0" by (simp add: ts'_def len)
  have old: "map (\<lambda>j. map U (ps @ [p]) ! j) idx = map (\<lambda>j. map U ps ! j) idx"
    if "list_all (\<lambda>j. j < length ps) idx" for idx
    using that by (induction idx) (simp_all add: nth_append)
  have i1: "subExecParam (ts' ! i) = subExecParam (ts0 ! i)
            \<and> list_all (\<lambda>j. j < length (ps @ [p])) (subExecIdx (ts' ! i))
            \<and> map (\<lambda>j. map U (ps @ [p]) ! j) (subExecIdx (ts' ! i))
                = map U (filter (\<lambda>p. fst p = i) (ps @ [p]))"
    if i: "i < length ts0" for i
  proof (cases "i = fst p")
    case True
    from inv i have a: "subExecParam (ts ! i) = subExecParam (ts0 ! i)"
      and b: "list_all (\<lambda>j. j < length ps) (subExecIdx (ts ! i))"
      and c: "map (\<lambda>j. map U ps ! j) (subExecIdx (ts ! i)) = map U (filter (\<lambda>p. fst p = i) ps)"
      by simp_all
    have e: "ts' ! i = (ts ! i)\<lparr>subExecIdx := subExecIdx (ts ! i) @ [length ps]\<rparr>"
      using True i len by (simp add: ts'_def temp)
    have b': "list_all (\<lambda>j. j < Suc (length ps)) (subExecIdx (ts ! i))"
      using b by (simp add: list_all_iff less_Suc_eq)
    have m: "map (\<lambda>j. map U (ps @ [p]) ! j) (subExecIdx (ts ! i) @ [length ps])
          = map (\<lambda>j. map U ps ! j) (subExecIdx (ts ! i)) @ [U p]"
      using old [OF b] by (simp add: nth_append)
    have f: "filter (\<lambda>q. fst q = i) (ps @ [p]) = filter (\<lambda>q. fst q = i) ps @ [p]"
      using True by simp
    have 1: "subExecParam (ts' ! i) = subExecParam (ts0 ! i)" unfolding e using a by simp
    have 2: "list_all (\<lambda>j. j < length (ps @ [p])) (subExecIdx (ts' ! i))"
      unfolding e using b' by simp
    have 3: "map (\<lambda>j. map U (ps @ [p]) ! j) (subExecIdx (ts' ! i))
                = map U (filter (\<lambda>p. fst p = i) (ps @ [p]))"
      unfolding e f using m c by simp
    show ?thesis using 1 2 3 by blast
  next
    case False
    from inv i have a: "subExecParam (ts ! i) = subExecParam (ts0 ! i)"
      and b: "list_all (\<lambda>j. j < length ps) (subExecIdx (ts ! i))"
      and c: "map (\<lambda>j. map U ps ! j) (subExecIdx (ts ! i)) = map U (filter (\<lambda>p. fst p = i) ps)"
      by simp_all
    have e: "ts' ! i = ts ! i" using False by (simp add: ts'_def)
    have b': "list_all (\<lambda>j. j < Suc (length ps)) (subExecIdx (ts ! i))"
      using b by (simp add: list_all_iff less_Suc_eq)
    have f: "filter (\<lambda>q. fst q = i) (ps @ [p]) = filter (\<lambda>q. fst q = i) ps"
      using False by simp
    have 1: "subExecParam (ts' ! i) = subExecParam (ts0 ! i)" unfolding e using a by simp
    have 2: "list_all (\<lambda>j. j < length (ps @ [p])) (subExecIdx (ts' ! i))"
      unfolding e using b' by simp
    have 3: "map (\<lambda>j. map U (ps @ [p]) ! j) (subExecIdx (ts' ! i))
                = map U (filter (\<lambda>p. fst p = i) (ps @ [p]))"
      unfolding e f using old [OF b] c by simp
    show ?thesis using 1 2 3 by blast
  qed
  show ?case unfolding st fst_conv snd_conv t1 using l1 i1 by (simp add: U_def)
qed


lemma mergeRandom_covers:
  assumes prep: "prepared ts0"
    and fresh: "\<forall>t\<in>set ts0. subExecIdx t = []"
    and perm: "mset (shuffle (unitIndices ts0)) = mset (unitIndices ts0)"
  shows "map subExecParam (snd (mergeRandom shuffle ts0)) = map subExecParam ts0
         \<and> coversExactly (fst (mergeRandom shuffle ts0)) (snd (mergeRandom shuffle ts0))"
proof -
  define U where "U = (\<lambda>p. subExecParam (ts0 ! fst p) ! snd p)"
  define ps where "ps = shuffle (unitIndices ts0)"
  define temp where "temp = fst (mergeRandom shuffle ts0)"
  define ts' where "ts' = snd (mergeRandom shuffle ts0)"
  have mps: "mset ps = mset (unitIndices ts0)" using perm by (simp add: ps_def)
  then have "set ps = set (unitIndices ts0)" by (rule mset_eq_setD)
  then have bound: "\<forall>p\<in>set ps. fst p < length ts0" by (auto dest: unitIndices_fst)
  from placeUnit_fold_inv [OF fresh bound]
  have temp: "temp = map U ps" and len: "length ts' = length ts0"
    and inv: "\<forall>i<length ts0. subExecParam (ts' ! i) = subExecParam (ts0 ! i)
                \<and> list_all (\<lambda>j. j < length ps) (subExecIdx (ts' ! i))
                \<and> map (\<lambda>j. map U ps ! j) (subExecIdx (ts' ! i)) = map U (filter (\<lambda>p. fst p = i) ps)"
    unfolding temp_def ts'_def mergeRandom_def ps_def U_def by simp_all
  have same: "map subExecParam ts' = map subExecParam ts0"
    by (rule nth_equalityI) (use len inv in simp_all)
  have "mset temp = image_mset U (mset ps)" by (simp add: temp)
  also have "\<dots> = image_mset U (mset (unitIndices ts0))" by (simp only: mps)
  also have "\<dots> = mset (map U (unitIndices ts0))" by simp
  also have "\<dots> = mset (concat (map subExecParam ts0))"
    using map_unit_unitIndices [OF prep] by (simp add: U_def)
  finally have all: "mset temp = mset (concat (map subExecParam ts'))" by (simp only: same)
  have own: "list_all (\<lambda>i. i < length temp) (subExecIdx (ts' ! i))
             \<and> mset (map (\<lambda>j. temp ! j) (subExecIdx (ts' ! i))) = mset (subExecParam (ts' ! i))"
    if i: "i < length ts'" for i
  proof -
    from i len have i0: "i < length ts0" by simp
    with inv have a: "subExecParam (ts' ! i) = subExecParam (ts0 ! i)"
      and b: "list_all (\<lambda>j. j < length ps) (subExecIdx (ts' ! i))"
      and c: "map (\<lambda>j. map U ps ! j) (subExecIdx (ts' ! i)) = map U (filter (\<lambda>p. fst p = i) ps)"
      by simp_all
    have l: "length (subExecParam (ts0 ! i)) = nat (numSubExecs (ts0 ! i))"
      using prep i0 by (simp add: prepared_def list_all_length)
    have "mset (map (\<lambda>j. temp ! j) (subExecIdx (ts' ! i))) = mset (map U (filter (\<lambda>p. fst p = i) ps))"
      using c by (simp only: temp)
    also have "\<dots> = image_mset U (filter_mset (\<lambda>p. fst p = i) (mset ps))" by simp
    also have "\<dots> = image_mset U (filter_mset (\<lambda>p. fst p = i) (mset (unitIndices ts0)))"
      by (simp only: mps)
    also have "\<dots> = mset (map U (filter (\<lambda>p. fst p = i) (unitIndices ts0)))" by simp
    also have "\<dots> = mset (map U (map (\<lambda>k. (i, k)) [0..<nat (numSubExecs (ts0 ! i))]))"
      by (simp only: filter_unitIndices [OF i0])
    also have "\<dots> = mset (map (\<lambda>k. subExecParam (ts0 ! i) ! k) [0..<length (subExecParam (ts0 ! i))])"
      by (simp add: U_def o_def l)
    also have "\<dots> = mset (subExecParam (ts0 ! i))" by (simp only: map_nth)
    finally have "mset (map (\<lambda>j. temp ! j) (subExecIdx (ts' ! i))) = mset (subExecParam (ts' ! i))"
      by (simp only: a)
    moreover have "list_all (\<lambda>i. i < length temp) (subExecIdx (ts' ! i))"
      using b by (simp add: temp)
    ultimately show ?thesis by blast
  qed
  have "list_all (\<lambda>t. list_all (\<lambda>i. i < length temp) (subExecIdx t)
                      \<and> mset (map (\<lambda>i. temp ! i) (subExecIdx t)) = mset (subExecParam t)) ts'"
    by (rule list_all_length [THEN iffD2]) (use own in blast)
  then have "coversExactly temp ts'" using all by (simp add: coversExactly_def)
  then show ?thesis using same by (simp add: temp_def ts'_def)
qed

lemma first_ptr_nth:
  "i < length ts \<Longrightarrow> ts[0 := f (ts ! 0)] ! i = (if i = 0 then f (ts ! 0) else ts ! i)"
  by (cases i) simp_all

lemma first_ptr_prepared:
  assumes "prepared ts"
  shows "prepared (ts[0 := (ts ! 0)\<lparr>subExecParamGpuPtr := 0\<rparr>])"
proof -
  have "0 \<le> numSubExecs (ts[0 := (ts ! 0)\<lparr>subExecParamGpuPtr := 0\<rparr>] ! n)
        \<and> length (subExecParam (ts[0 := (ts ! 0)\<lparr>subExecParamGpuPtr := 0\<rparr>] ! n))
            = nat (numSubExecs (ts[0 := (ts ! 0)\<lparr>subExecParamGpuPtr := 0\<rparr>] ! n))"
    if n: "n < length ts" for n
  proof -
    from assms n have "0 \<le> numSubExecs (ts ! n) \<and> length (subExecParam (ts ! n)) = nat (numSubExecs (ts ! n))"
      by (simp add: prepared_def list_all_length)
    then show ?thesis
      using first_ptr_nth [OF n, of "\<lambda>t. t\<lparr>subExecParamGpuPtr := 0\<rparr>"] by (cases "n = 0") simp_all
  qed
  then show ?thesis by (simp add: prepared_def list_all_length)
qed

lemma first_ptr_fresh:
  assumes "\<forall>t\<in>set ts. subExecIdx t = []"
  shows "\<forall>t\<in>set (ts[0 := (ts ! 0)\<lparr>subExecParamGpuPtr := 0\<rparr>]). subExecIdx t = []"
proof
  fix t assume "t \<in> set (ts[0 := (ts ! 0)\<lparr>subExecParamGpuPtr := 0\<rparr>])"
  then obtain i where i: "i < length ts" "t = ts[0 := (ts ! 0)\<lparr>subExecParamGpuPtr := 0\<rparr>] ! i"
    by (auto simp: in_set_conv_nth)
  then have "subExecIdx t = subExecIdx (ts ! i)"
    using first_ptr_nth [OF i(1), of "\<lambda>t. t\<lparr>subExecParamGpuPtr := 0\<rparr>"] by (cases "i = 0") simp_all
  then show "subExecIdx t = []" using assms i by simp
qed

lemma first_ptr_units:
  "map subExecParam (ts[0 := (ts ! 0)\<lparr>subExecParamGpuPtr := 0\<rparr>]) = map subExecParam ts"
proof (rule nth_equalityI)
  show "length (map subExecParam (ts[0 := (ts ! 0)\<lparr>subExecParamGpuPtr := 0\<rparr>])) = length (map subExecParam ts)"
    by simp
next
  fix i assume "i < length (map subExecParam (ts[0 := (ts ! 0)\<lparr>subExecParamGpuPtr := 0\<rparr>]))"
  then have i: "i < length ts" by simp
  show "map subExecParam (ts[0 := (ts ! 0)\<lparr>subExecParamGpuPtr := 0\<rparr>]) ! i = map subExecParam ts ! i"
    using i first_ptr_nth [OF i, of "\<lambda>t. t\<lparr>subExecParamGpuPtr := 0\<rparr>"] by (cases "i = 0") simp_all
qed

lemma random_covers:
  assumes prep: "prepared (transfers exeInfo)"
    and fresh: "\<forall>t\<in>set (transfers exeInfo). subExecIdx t = []"
    and mode: "useSingleStream ev" "blockOrder ev = ORDER_RANDOM"
    and perm: "\<forall>xs. mset (shuffle xs) = mset xs"
  shows "\<exists>temp ts'. mergeSubExecParams ev shuffle exeInfo = Some (temp, ts')
           \<and> map subExecParam ts' = map subExecParam (transfers exeInfo)
           \<and> coversExactly temp ts'"
proof -
  define ts0 where "ts0 = (transfers exeInfo)[0 := (transfers exeInfo ! 0)\<lparr>subExecParamGpuPtr := 0\<rparr>]"
  have m: "mergeSubExecParams ev shuffle exeInfo = Some (mergeRandom shuffle ts0)"
    using mode by (simp add: mergeSubExecParams_def Let_def ts0_def)
  from perm have p: "mset (shuffle (unitIndices ts0)) = mset (unitIndices ts0)" by blast
  have p0: "prepared ts0" unfolding ts0_def by (rule first_ptr_prepared [OF prep])
  have f0: "\<forall>t\<in>set ts0. subExecIdx t = []" unfolding ts0_def by (rule first_ptr_fresh [OF fresh])
  have u0: "map subExecParam ts0 = map subExecParam (transfers exeInfo)"
    unfolding ts0_def by (rule first_ptr_units)
  from mergeRandom_covers [of ts0 shuffle, OF p0 f0 p]
  have 1: "map subExecParam (snd (mergeRandom shuffle ts0)) = map subExecParam (transfers exeInfo)"
    and 2: "coversExactly (fst (mergeRandom shuffle ts0)) (snd (mergeRandom shuffle ts0))"
    by (simp_all only: u0)
  have "mergeSubExecParams ev shuffle exeInfo
          = Some (fst (mergeRandom shuffle ts0), snd (mergeRandom shuffle ts0))"
    by (simp add: m)
  with 1 2 show ?thesis by blast
qed

subsection \<open>Interleaved placement\<close>

text \<open>
  Under the interleaved branch, for Transfers whose \<open>subExecIdx\<close> is empty when the
  branch is entered and a \<open>totalSubExecs\<close> that is the sum of their sub-executor counts,
  the outer loop ends, the merged vector is a rearrangement of all units, and every
  Transfer's positions hold its own units in order (lemma \<open>interleaved_covers\<close> at the
  end of this part).
\<close>

lemma interleaveRound_spec:
  "fst (interleaveRound k temp ts) = temp @ roundUnits k ts
   \<and> length (snd (interleaveRound k temp ts)) = length ts
   \<and> (\<forall>i<length ts.
         subExecParam (snd (interleaveRound k temp ts) ! i) = subExecParam (ts ! i)
       \<and> numSubExecs (snd (interleaveRound k temp ts) ! i) = numSubExecs (ts ! i)
       \<and> (if int k < numSubExecs (ts ! i)
          then \<exists>pos. subExecIdx (snd (interleaveRound k temp ts) ! i) = subExecIdx (ts ! i) @ [pos]
                 \<and> length temp \<le> pos \<and> pos < length (temp @ roundUnits k ts)
                 \<and> (temp @ roundUnits k ts) ! pos = subExecParam (ts ! i) ! k
          else subExecIdx (snd (interleaveRound k temp ts) ! i) = subExecIdx (ts ! i)))"
proof (induction ts arbitrary: temp)
  case Nil
  show ?case by (simp add: roundUnits_def)
next
  case (Cons t rest)
  show ?case
  proof (cases "int k < numSubExecs t")
    case True
    define u where "u = subExecParam t ! k"
    define r where "r = interleaveRound k (temp @ [u]) rest"
    define t' where "t' = t\<lparr>subExecIdx := subExecIdx t @ [length temp]\<rparr>"
    have step: "interleaveRound k temp (t # rest) = (fst r, t' # snd r)"
      using True by (simp add: r_def u_def t'_def split: prod.splits)
    have ru: "roundUnits k (t # rest) = u # roundUnits k rest"
      using True by (simp add: roundUnits_def u_def)
    note ih = Cons.IH [of "temp @ [u]", folded r_def]
    have f: "fst r = (temp @ [u]) @ roundUnits k rest" and l: "length (snd r) = length rest"
      and inv: "\<forall>i<length rest.
         subExecParam (snd r ! i) = subExecParam (rest ! i)
       \<and> numSubExecs (snd r ! i) = numSubExecs (rest ! i)
       \<and> (if int k < numSubExecs (rest ! i)
          then \<exists>pos. subExecIdx (snd r ! i) = subExecIdx (rest ! i) @ [pos]
                 \<and> length (temp @ [u]) \<le> pos \<and> pos < length ((temp @ [u]) @ roundUnits k rest)
                 \<and> ((temp @ [u]) @ roundUnits k rest) ! pos = subExecParam (rest ! i) ! k
          else subExecIdx (snd r ! i) = subExecIdx (rest ! i))"
      by (rule conjunct1 [OF ih], rule conjunct1 [OF conjunct2 [OF ih]],
          rule conjunct2 [OF conjunct2 [OF ih]])
    have whole: "temp @ roundUnits k (t # rest) = (temp @ [u]) @ roundUnits k rest"
      by (simp add: ru)
    have each: "subExecParam ((t' # snd r) ! i) = subExecParam ((t # rest) ! i)
       \<and> numSubExecs ((t' # snd r) ! i) = numSubExecs ((t # rest) ! i)
       \<and> (if int k < numSubExecs ((t # rest) ! i)
          then \<exists>pos. subExecIdx ((t' # snd r) ! i) = subExecIdx ((t # rest) ! i) @ [pos]
                 \<and> length temp \<le> pos \<and> pos < length (temp @ roundUnits k (t # rest))
                 \<and> (temp @ roundUnits k (t # rest)) ! pos = subExecParam ((t # rest) ! i) ! k
          else subExecIdx ((t' # snd r) ! i) = subExecIdx ((t # rest) ! i))"
      if i: "i < length (t # rest)" for i
    proof (cases i)
      case 0
      have "(temp @ roundUnits k (t # rest)) ! length temp = u" by (simp add: ru)
      then show ?thesis using 0 True by (simp add: t'_def ru u_def)
    next
      case (Suc j)
      with i have j: "j < length rest" by simp
      note invj = inv [rule_format, OF j]
      have a: "subExecParam (snd r ! j) = subExecParam (rest ! j)"
        and b: "numSubExecs (snd r ! j) = numSubExecs (rest ! j)"
        and c: "if int k < numSubExecs (rest ! j)
          then \<exists>pos. subExecIdx (snd r ! j) = subExecIdx (rest ! j) @ [pos]
                 \<and> length (temp @ [u]) \<le> pos \<and> pos < length ((temp @ [u]) @ roundUnits k rest)
                 \<and> ((temp @ [u]) @ roundUnits k rest) ! pos = subExecParam (rest ! j) ! k
          else subExecIdx (snd r ! j) = subExecIdx (rest ! j)"
        by (rule conjunct1 [OF invj], rule conjunct1 [OF conjunct2 [OF invj]],
            rule conjunct2 [OF conjunct2 [OF invj]])
      show ?thesis
      proof (cases "int k < numSubExecs (rest ! j)")
        case True
        with c obtain pos where "subExecIdx (snd r ! j) = subExecIdx (rest ! j) @ [pos]"
          "length (temp @ [u]) \<le> pos" "pos < length ((temp @ [u]) @ roundUnits k rest)"
          "((temp @ [u]) @ roundUnits k rest) ! pos = subExecParam (rest ! j) ! k"
          by auto
        then have "subExecIdx (snd r ! j) = subExecIdx (rest ! j) @ [pos]
                 \<and> length temp \<le> pos \<and> pos < length (temp @ roundUnits k (t # rest))
                 \<and> (temp @ roundUnits k (t # rest)) ! pos = subExecParam (rest ! j) ! k"
          unfolding whole by simp
        then show ?thesis using Suc a b True by auto
      next
        case False
        with c have "subExecIdx (snd r ! j) = subExecIdx (rest ! j)" by simp
        then show ?thesis using Suc a b False by simp
      qed
    qed
    have f': "fst r = temp @ roundUnits k (t # rest)" using f by (simp only: whole)
    have l': "length (t' # snd r) = length (t # rest)" using l by simp
    have E: "\<forall>i<length (t # rest). subExecParam ((t' # snd r) ! i) = subExecParam ((t # rest) ! i)
       \<and> numSubExecs ((t' # snd r) ! i) = numSubExecs ((t # rest) ! i)
       \<and> (if int k < numSubExecs ((t # rest) ! i)
          then \<exists>pos. subExecIdx ((t' # snd r) ! i) = subExecIdx ((t # rest) ! i) @ [pos]
                 \<and> length temp \<le> pos \<and> pos < length (temp @ roundUnits k (t # rest))
                 \<and> (temp @ roundUnits k (t # rest)) ! pos = subExecParam ((t # rest) ! i) ! k
          else subExecIdx ((t' # snd r) ! i) = subExecIdx ((t # rest) ! i))"
      using each by blast
    show ?thesis unfolding step fst_conv snd_conv by (rule conjI [OF f' conjI [OF l' E]])
  next
    case False
    define r where "r = interleaveRound k temp rest"
    have step: "interleaveRound k temp (t # rest) = (fst r, t # snd r)"
      using False by (simp add: r_def split: prod.splits)
    have ru: "roundUnits k (t # rest) = roundUnits k rest"
      using False by (simp add: roundUnits_def)
    note ih = Cons.IH [of temp, folded r_def]
    have f: "fst r = temp @ roundUnits k rest" and l: "length (snd r) = length rest"
      and inv: "\<forall>i<length rest.
         subExecParam (snd r ! i) = subExecParam (rest ! i)
       \<and> numSubExecs (snd r ! i) = numSubExecs (rest ! i)
       \<and> (if int k < numSubExecs (rest ! i)
          then \<exists>pos. subExecIdx (snd r ! i) = subExecIdx (rest ! i) @ [pos]
                 \<and> length temp \<le> pos \<and> pos < length (temp @ roundUnits k rest)
                 \<and> (temp @ roundUnits k rest) ! pos = subExecParam (rest ! i) ! k
          else subExecIdx (snd r ! i) = subExecIdx (rest ! i))"
      by (rule conjunct1 [OF ih], rule conjunct1 [OF conjunct2 [OF ih]],
          rule conjunct2 [OF conjunct2 [OF ih]])
    have each: "subExecParam ((t # snd r) ! i) = subExecParam ((t # rest) ! i)
       \<and> numSubExecs ((t # snd r) ! i) = numSubExecs ((t # rest) ! i)
       \<and> (if int k < numSubExecs ((t # rest) ! i)
          then \<exists>pos. subExecIdx ((t # snd r) ! i) = subExecIdx ((t # rest) ! i) @ [pos]
                 \<and> length temp \<le> pos \<and> pos < length (temp @ roundUnits k (t # rest))
                 \<and> (temp @ roundUnits k (t # rest)) ! pos = subExecParam ((t # rest) ! i) ! k
          else subExecIdx ((t # snd r) ! i) = subExecIdx ((t # rest) ! i))"
      if i: "i < length (t # rest)" for i
    proof (cases i)
      case 0
      then show ?thesis using False by simp
    next
      case (Suc j)
      with i have j: "j < length rest" by simp
      show ?thesis unfolding ru Suc nth_Cons_Suc by (rule inv [rule_format, OF j])
    qed
    have f': "fst r = temp @ roundUnits k (t # rest)" using f by (simp only: ru)
    have l': "length (t # snd r) = length (t # rest)" using l by simp
    have E: "\<forall>i<length (t # rest). subExecParam ((t # snd r) ! i) = subExecParam ((t # rest) ! i)
       \<and> numSubExecs ((t # snd r) ! i) = numSubExecs ((t # rest) ! i)
       \<and> (if int k < numSubExecs ((t # rest) ! i)
          then \<exists>pos. subExecIdx ((t # snd r) ! i) = subExecIdx ((t # rest) ! i) @ [pos]
                 \<and> length temp \<le> pos \<and> pos < length (temp @ roundUnits k (t # rest))
                 \<and> (temp @ roundUnits k (t # rest)) ! pos = subExecParam ((t # rest) ! i) ! k
          else subExecIdx ((t # snd r) ! i) = subExecIdx ((t # rest) ! i))"
      using each by blast
    show ?thesis unfolding step fst_conv snd_conv by (rule conjI [OF f' conjI [OF l' E]])
  qed
qed

lemma roundUnits_cong:
  assumes "length ts = length ts0"
    and "\<forall>i<length ts0. subExecParam (ts ! i) = subExecParam (ts0 ! i)
                        \<and> numSubExecs (ts ! i) = numSubExecs (ts0 ! i)"
  shows "roundUnits k ts = roundUnits k ts0"
proof -
  have "map (\<lambda>t. if int k < numSubExecs t then [subExecParam t ! k] else []) ts
        = map (\<lambda>t. if int k < numSubExecs t then [subExecParam t ! k] else []) ts0"
    by (rule nth_equalityI) (use assms in simp_all)
  then show ?thesis by (simp only: roundUnits_def)
qed

lemma take_Suc_units:
  assumes "0 \<le> S" and "length u = nat S"
  shows "take (Suc k) u = take k u @ (if int k < S then [u ! k] else [])"
proof (cases "int k < S")
  case True
  then have "k < length u" using assms by simp
  then show ?thesis using True by (simp add: take_Suc_conv_app_nth)
next
  case False
  then have "length u \<le> k" using assms by simp
  then show ?thesis using False by simp
qed

lemma mset_take_Suc_units:
  assumes "prepared ts0"
  shows "mset (concat (map (\<lambda>t. take k (subExecParam t)) ts0)) + mset (roundUnits k ts0)
         = mset (concat (map (\<lambda>t. take (Suc k) (subExecParam t)) ts0))"
  using assms
proof (induction ts0)
  case Nil
  show ?case by (simp add: roundUnits_def)
next
  case (Cons t ts0)
  then have t: "0 \<le> numSubExecs t" "length (subExecParam t) = nat (numSubExecs t)"
    and p: "prepared ts0" by (simp_all add: prepared_def)
  have r: "roundUnits k (t # ts0)
           = (if int k < numSubExecs t then [subExecParam t ! k] else []) @ roundUnits k ts0"
    by (simp add: roundUnits_def)
  show ?case using Cons.IH [OF p] take_Suc_units [OF t, of k]
    by (simp add: r ac_simps)
qed

lemma length_take_units_le:
  "length (concat (map (\<lambda>t. take k (subExecParam t)) ts0)) \<le> length (concat (map subExecParam ts0))"
  by (induction ts0) (simp_all add: add_mono)

lemma take_units_full:
  assumes "length (concat (map subExecParam ts0)) \<le> length (concat (map (\<lambda>t. take k (subExecParam t)) ts0))"
    and "t \<in> set ts0"
  shows "take k (subExecParam t) = subExecParam t"
  using assms
proof (induction ts0)
  case Nil
  then show ?case by simp
next
  case (Cons a ts0)
  have la: "length (take k (subExecParam a)) \<le> length (subExecParam a)" by simp
  have lr: "length (concat (map (\<lambda>t. take k (subExecParam t)) ts0)) \<le> length (concat (map subExecParam ts0))"
    by (rule length_take_units_le)
  from Cons.prems(1)
  have sum: "length (subExecParam a) + length (concat (map subExecParam ts0))
             \<le> length (take k (subExecParam a)) + length (concat (map (\<lambda>t. take k (subExecParam t)) ts0))"
    by simp
  from sum la lr have ea: "length (take k (subExecParam a)) = length (subExecParam a)" by linarith
  from sum la lr have er: "length (concat (map subExecParam ts0))
             \<le> length (concat (map (\<lambda>t. take k (subExecParam t)) ts0))" by linarith
  show ?case
  proof (cases "t = a")
    case True
    from ea have "length (subExecParam a) \<le> k" by simp
    then show ?thesis using True by simp
  next
    case False
    with Cons.prems(2) have "t \<in> set ts0" by simp
    from Cons.IH [OF er this] show ?thesis .
  qed
qed

lemma roundUnits_empty_full:
  assumes "prepared ts0" and "roundUnits k ts0 = []"
  shows "concat (map (\<lambda>t. take k (subExecParam t)) ts0) = concat (map subExecParam ts0)"
proof -
  have "take k (subExecParam t) = subExecParam t" if t: "t \<in> set ts0" for t
  proof -
    from assms(2) t have "\<not> int k < numSubExecs t"
      by (auto simp: roundUnits_def split: if_splits)
    moreover from assms(1) t have "length (subExecParam t) = nat (numSubExecs t)"
      by (simp add: prepared_def list_all_iff)
    ultimately have "length (subExecParam t) \<le> k" by simp
    then show ?thesis by simp
  qed
  then have "map (\<lambda>t. take k (subExecParam t)) ts0 = map subExecParam ts0"
    by (intro map_cong refl)
  then show ?thesis by (simp only:)
qed

lemma prepared_total:
  "prepared ts \<Longrightarrow> int (length (concat (map subExecParam ts))) = sum_list (map numSubExecs ts)"
  by (induction ts) (simp_all add: prepared_def)

lemma afterRounds_step:
  assumes prep: "prepared ts0" and inv: "afterRounds ts0 k temp ts"
  shows "afterRounds ts0 (Suc k) (fst (interleaveRound k temp ts)) (snd (interleaveRound k temp ts))"
proof -
  define temp' where "temp' = temp @ roundUnits k ts"
  define ts' where "ts' = snd (interleaveRound k temp ts)"
  from inv have len: "length ts = length ts0"
    and each: "\<forall>i<length ts0.
           subExecParam (ts ! i) = subExecParam (ts0 ! i)
         \<and> numSubExecs (ts ! i) = numSubExecs (ts0 ! i)
         \<and> list_all (\<lambda>j. j < length temp) (subExecIdx (ts ! i))
         \<and> map (\<lambda>j. temp ! j) (subExecIdx (ts ! i)) = take k (subExecParam (ts0 ! i))"
    and ms: "mset temp = mset (concat (map (\<lambda>t. take k (subExecParam t)) ts0))"
    unfolding afterRounds_def by blast+
  note spec = interleaveRound_spec [of k temp ts, folded temp'_def ts'_def]
  have f: "fst (interleaveRound k temp ts) = temp'" by (rule conjunct1 [OF spec])
  have l: "length ts' = length ts" by (rule conjunct1 [OF conjunct2 [OF spec]])
  note per = conjunct2 [OF conjunct2 [OF spec], rule_format]
  have ru: "roundUnits k ts = roundUnits k ts0"
    by (rule roundUnits_cong [OF len]) (use each in blast)
  have old: "map (\<lambda>j. temp' ! j) idx = map (\<lambda>j. temp ! j) idx"
    if "list_all (\<lambda>j. j < length temp) idx" for idx
    using that by (induction idx) (simp_all add: temp'_def nth_append)
  have grow: "list_all (\<lambda>j. j < length temp') idx"
    if "list_all (\<lambda>j. j < length temp) idx" for idx
    using that by (induction idx) (simp_all add: temp'_def)
  have e': "subExecParam (ts' ! i) = subExecParam (ts0 ! i)
         \<and> numSubExecs (ts' ! i) = numSubExecs (ts0 ! i)
         \<and> list_all (\<lambda>j. j < length temp') (subExecIdx (ts' ! i))
         \<and> map (\<lambda>j. temp' ! j) (subExecIdx (ts' ! i)) = take (Suc k) (subExecParam (ts0 ! i))"
    if i0: "i < length ts0" for i
  proof -
    from i0 len have i: "i < length ts" by simp
    from each i0 have a: "subExecParam (ts ! i) = subExecParam (ts0 ! i)"
      and b: "numSubExecs (ts ! i) = numSubExecs (ts0 ! i)"
      and c: "list_all (\<lambda>j. j < length temp) (subExecIdx (ts ! i))"
      and d: "map (\<lambda>j. temp ! j) (subExecIdx (ts ! i)) = take k (subExecParam (ts0 ! i))"
      by blast+
    from prep i0 have S: "0 \<le> numSubExecs (ts0 ! i)"
      "length (subExecParam (ts0 ! i)) = nat (numSubExecs (ts0 ! i))"
      by (simp_all add: prepared_def list_all_length)
    have p1: "subExecParam (ts' ! i) = subExecParam (ts ! i)" by (rule conjunct1 [OF per [OF i]])
    have p2: "numSubExecs (ts' ! i) = numSubExecs (ts ! i)"
      by (rule conjunct1 [OF conjunct2 [OF per [OF i]]])
    note p3 = conjunct2 [OF conjunct2 [OF per [OF i]]]
    show ?thesis
    proof (cases "int k < numSubExecs (ts ! i)")
      case True
      with p3 obtain pos where pos: "subExecIdx (ts' ! i) = subExecIdx (ts ! i) @ [pos]"
        "pos < length temp'" "temp' ! pos = subExecParam (ts ! i) ! k"
        by auto
      have "map (\<lambda>j. temp' ! j) (subExecIdx (ts' ! i))
            = map (\<lambda>j. temp ! j) (subExecIdx (ts ! i)) @ [subExecParam (ts0 ! i) ! k]"
        unfolding pos(1) using old [OF c] pos(3) a by simp
      also have "\<dots> = take (Suc k) (subExecParam (ts0 ! i))"
        using take_Suc_units [OF S, of k] True b d by simp
      finally have m: "map (\<lambda>j. temp' ! j) (subExecIdx (ts' ! i)) = take (Suc k) (subExecParam (ts0 ! i))" .
      have g: "list_all (\<lambda>j. j < length temp') (subExecIdx (ts' ! i))"
        unfolding pos(1) using grow [OF c] pos(2) by simp
      show ?thesis using p1 p2 a b m g by simp
    next
      case False
      with p3 have same: "subExecIdx (ts' ! i) = subExecIdx (ts ! i)" by simp
      have "map (\<lambda>j. temp' ! j) (subExecIdx (ts' ! i)) = take k (subExecParam (ts0 ! i))"
        unfolding same using old [OF c] d by simp
      also have "\<dots> = take (Suc k) (subExecParam (ts0 ! i))"
        using take_Suc_units [OF S, of k] False b by simp
      finally have m: "map (\<lambda>j. temp' ! j) (subExecIdx (ts' ! i)) = take (Suc k) (subExecParam (ts0 ! i))" .
      have g: "list_all (\<lambda>j. j < length temp') (subExecIdx (ts' ! i))"
        unfolding same by (rule grow [OF c])
      show ?thesis using p1 p2 a b m g by simp
    qed
  qed
  have "mset temp' = mset (concat (map (\<lambda>t. take k (subExecParam t)) ts0)) + mset (roundUnits k ts0)"
    by (simp add: temp'_def ms ru)
  also have "\<dots> = mset (concat (map (\<lambda>t. take (Suc k) (subExecParam t)) ts0))"
    by (rule mset_take_Suc_units [OF prep])
  finally have ms': "mset temp' = mset (concat (map (\<lambda>t. take (Suc k) (subExecParam t)) ts0))" .
  have "afterRounds ts0 (Suc k) temp' ts'"
    unfolding afterRounds_def using l len e' ms' by simp
  then show ?thesis by (simp only: f ts'_def)
qed

lemma afterRounds_length:
  assumes "afterRounds ts0 k temp ts"
  shows "length temp = length (concat (map (\<lambda>t. take k (subExecParam t)) ts0))"
proof -
  from assms have "mset temp = mset (concat (map (\<lambda>t. take k (subExecParam t)) ts0))"
    by (simp add: afterRounds_def)
  then show ?thesis by (rule mset_eq_length)
qed

lemma interleaveLoop_returns:
  assumes prep: "prepared ts0"
    and tot: "totalSub = int (length (concat (map subExecParam ts0)))"
  shows "afterRounds ts0 k temp ts \<Longrightarrow>
         \<exists>k' temp' ts'. interleaveLoop totalSub k (temp, ts) = Some (temp', ts')
            \<and> afterRounds ts0 k' temp' ts' \<and> \<not> int (length temp') < totalSub"
proof (induction "length (concat (map subExecParam ts0)) - length temp" arbitrary: k temp ts
       rule: less_induct)
  case less
  show ?case
  proof (cases "int (length temp) < totalSub")
    case False
    have "interleaveLoop totalSub k (temp, ts) = Some (temp, ts)"
      using False by (subst interleaveLoop.simps) simp
    then show ?thesis using less.prems False by blast
  next
    case True
    define temp1 where "temp1 = fst (interleaveRound k temp ts)"
    define ts1 where "ts1 = snd (interleaveRound k temp ts)"
    have inv1: "afterRounds ts0 (Suc k) temp1 ts1"
      unfolding temp1_def ts1_def by (rule afterRounds_step [OF prep less.prems])
    have lt: "length temp < length (concat (map subExecParam ts0))" using True tot by simp
    have l0: "length temp = length (concat (map (\<lambda>t. take k (subExecParam t)) ts0))"
      by (rule afterRounds_length [OF less.prems])
    have ne: "roundUnits k ts0 \<noteq> []"
    proof
      assume "roundUnits k ts0 = []"
      from roundUnits_empty_full [OF prep this] l0 lt show False by simp
    qed
    have "mset temp1 = mset (concat (map (\<lambda>t. take (Suc k) (subExecParam t)) ts0))"
      using inv1 by (simp add: afterRounds_def)
    also have "\<dots> = mset (concat (map (\<lambda>t. take k (subExecParam t)) ts0)) + mset (roundUnits k ts0)"
      by (rule mset_take_Suc_units [OF prep, symmetric])
    finally have "length temp1 = length temp + length (roundUnits k ts0)"
      using l0 by (metis mset_eq_length length_append mset_append)
    then have gt: "length temp < length temp1" using ne by simp
    then have dec: "length (concat (map subExecParam ts0)) - length temp1
               < length (concat (map subExecParam ts0)) - length temp" using lt by simp
    from less.hyps [OF dec inv1] obtain k' temp' ts' where
      r: "interleaveLoop totalSub (Suc k) (temp1, ts1) = Some (temp', ts')"
      "afterRounds ts0 k' temp' ts'" "\<not> int (length temp') < totalSub"
      by blast
    have "interleaveLoop totalSub k (temp, ts) = interleaveLoop totalSub (Suc k) (temp1, ts1)"
      using True by (subst interleaveLoop.simps) (simp add: temp1_def ts1_def)
    then show ?thesis using r by auto
  qed
qed

lemma afterRounds_initial:
  assumes "\<forall>t\<in>set ts0. subExecIdx t = []"
  shows "afterRounds ts0 0 [] ts0"
proof -
  have "subExecIdx (ts0 ! i) = []" if "i < length ts0" for i
    using assms that by simp
  moreover have "concat (map (\<lambda>t. take 0 (subExecParam t)) ts0) = []"
    by (simp add: concat_eq_Nil_conv)
  ultimately show ?thesis by (simp add: afterRounds_def)
qed

lemma afterRounds_final:
  assumes inv: "afterRounds ts0 k temp ts"
    and full: "length (concat (map subExecParam ts0)) \<le> length temp"
  shows "map subExecParam ts = map subExecParam ts0
         \<and> list_all (ownUnits temp) ts
         \<and> coversExactly temp ts"
proof -
  from inv have len: "length ts = length ts0"
    and each: "\<forall>i<length ts0.
           subExecParam (ts ! i) = subExecParam (ts0 ! i)
         \<and> numSubExecs (ts ! i) = numSubExecs (ts0 ! i)
         \<and> list_all (\<lambda>j. j < length temp) (subExecIdx (ts ! i))
         \<and> map (\<lambda>j. temp ! j) (subExecIdx (ts ! i)) = take k (subExecParam (ts0 ! i))"
    and ms: "mset temp = mset (concat (map (\<lambda>t. take k (subExecParam t)) ts0))"
    unfolding afterRounds_def by blast+
  have same: "map subExecParam ts = map subExecParam ts0"
    by (rule nth_equalityI) (use len each in simp_all)
  have "length (concat (map subExecParam ts0))
          \<le> length (concat (map (\<lambda>t. take k (subExecParam t)) ts0))"
    using full afterRounds_length [OF inv] by simp
  note whole = take_units_full [OF this]
  have tk: "map (\<lambda>t. take k (subExecParam t)) ts0 = map subExecParam ts0"
    by (intro map_cong refl whole)
  have all: "mset temp = mset (concat (map subExecParam ts))"
    using ms by (simp only: tk same)
  have own: "ownUnits temp (ts ! i)" if i: "i < length ts" for i
  proof -
    from i len have i0: "i < length ts0" by simp
    with each have a: "subExecParam (ts ! i) = subExecParam (ts0 ! i)"
      and c: "list_all (\<lambda>j. j < length temp) (subExecIdx (ts ! i))"
      and d: "map (\<lambda>j. temp ! j) (subExecIdx (ts ! i)) = take k (subExecParam (ts0 ! i))"
      by blast+
    have "ts0 ! i \<in> set ts0" using i0 by simp
    from whole [OF this] have "take k (subExecParam (ts0 ! i)) = subExecParam (ts ! i)"
      by (simp only: a)
    with c d show ?thesis by (simp add: ownUnits_def)
  qed
  have owns: "list_all (ownUnits temp) ts"
    by (rule list_all_length [THEN iffD2]) (use own in blast)
  have "coversExactly temp ts" by (rule ownUnits_coversExactly [OF all owns])
  then show ?thesis using same owns by blast
qed

lemma interleaved_covers:
  assumes prep: "prepared (transfers exeInfo)"
    and fresh: "\<forall>t\<in>set (transfers exeInfo). subExecIdx t = []"
    and mode: "useSingleStream ev" "blockOrder ev = ORDER_INTERLEAVED"
    and tot: "totalSubExecs exeInfo = sum_list (map numSubExecs (transfers exeInfo))"
  shows "\<exists>temp ts'. mergeSubExecParams ev shuffle exeInfo = Some (temp, ts')
           \<and> map subExecParam ts' = map subExecParam (transfers exeInfo)
           \<and> list_all (ownUnits temp) ts'
           \<and> coversExactly temp ts'"
proof -
  define ts0 where "ts0 = (transfers exeInfo)[0 := (transfers exeInfo ! 0)\<lparr>subExecParamGpuPtr := 0\<rparr>]"
  have m: "mergeSubExecParams ev shuffle exeInfo = interleaveLoop (totalSubExecs exeInfo) 0 ([], ts0)"
    using mode by (simp add: mergeSubExecParams_def Let_def ts0_def)
  have p0: "prepared ts0" unfolding ts0_def by (rule first_ptr_prepared [OF prep])
  have f0: "\<forall>t\<in>set ts0. subExecIdx t = []" unfolding ts0_def by (rule first_ptr_fresh [OF fresh])
  have u0: "map subExecParam ts0 = map subExecParam (transfers exeInfo)"
    unfolding ts0_def by (rule first_ptr_units)
  have "totalSubExecs exeInfo = int (length (concat (map subExecParam (transfers exeInfo))))"
    using prepared_total [OF prep] tot by simp
  then have t0: "totalSubExecs exeInfo = int (length (concat (map subExecParam ts0)))"
    by (simp only: u0)
  from interleaveLoop_returns [OF p0 t0 afterRounds_initial [OF f0]]
  obtain k' temp' ts' where
    r: "interleaveLoop (totalSubExecs exeInfo) 0 ([], ts0) = Some (temp', ts')"
    and inv: "afterRounds ts0 k' temp' ts'"
    and stop: "\<not> int (length temp') < totalSubExecs exeInfo"
    by blast
  from stop t0 have "length (concat (map subExecParam ts0)) \<le> length temp'" by simp
  from afterRounds_final [OF inv this]
  have "map subExecParam ts' = map subExecParam (transfers exeInfo)"
    and "list_all (ownUnits temp') ts'" and "coversExactly temp' ts'"
    by (simp_all only: u0)
  then show ?thesis using r unfolding m by blast
qed

subsection \<open>The first run of a group\<close>

text \<open>
  \<open>PrepareSubExecParams\<close> leaves every Transfer of the group with as many units as it
  has sub-executors, and does not touch \<open>subExecIdx\<close>.
\<close>

lemma PrepareSubExecParams_keeps:
  assumes "PrepareSubExecParams ev t = Inr t'"
  shows "numSubExecs t' = numSubExecs t \<and> subExecIdx t' = subExecIdx t"
  using assms by (auto simp: PrepareSubExecParams_def Let_def split: if_splits)

lemma prepareAll_result:
  "prepareAll ev ts = Inr ts' \<Longrightarrow> prepared ts' \<and> map subExecIdx ts' = map subExecIdx ts"
proof (induction ts arbitrary: ts')
  case Nil
  then show ?case by (simp add: prepared_def)
next
  case (Cons t ts)
  from Cons.prems obtain t' rest' where t': "PrepareSubExecParams ev t = Inr t'"
    and r: "prepareAll ev ts = Inr rest'" and e: "ts' = t' # rest'"
    by (auto split: sum.splits)
  from PrepareSubExecParams_result [OF t'] PrepareSubExecParams_keeps [OF t']
  have "0 \<le> numSubExecs t'" "length (subExecParam t') = nat (numSubExecs t')"
    "subExecIdx t' = subExecIdx t" by simp_all
  with Cons.IH [OF r] show ?case by (simp add: e prepared_def)
qed

text \<open>
  For Transfers that have not been merged before (their \<open>subExecIdx\<close> is empty), under
  each of the three block orders and with combined-stream mode on or off, the merge
  returns; the merged vector has \<open>totalSubExecs\<close> entries and is a rearrangement of all
  the units of the group's Transfers, and the positions each Transfer has recorded hold
  exactly its own units.  The shuffle is assumed to return a rearrangement of its
  argument.
\<close>

lemma first_run_covers:
  assumes prep: "prepared (transfers exeInfo)"
    and fresh: "\<forall>t\<in>set (transfers exeInfo). subExecIdx t = []"
    and tot: "totalSubExecs exeInfo = sum_list (map numSubExecs (transfers exeInfo))"
    and perm: "\<forall>xs. mset (shuffle xs) = mset xs"
  shows "\<exists>temp ts'. mergeSubExecParams ev shuffle exeInfo = Some (temp, ts')
           \<and> map subExecParam ts' = map subExecParam (transfers exeInfo)
           \<and> int (length temp) = totalSubExecs exeInfo
           \<and> coversExactly temp ts'"
proof -
  have "\<exists>temp ts'. mergeSubExecParams ev shuffle exeInfo = Some (temp, ts')
           \<and> map subExecParam ts' = map subExecParam (transfers exeInfo)
           \<and> coversExactly temp ts'"
  proof (cases "\<not> useSingleStream ev \<or> blockOrder ev = ORDER_SEQUENTIAL")
    case True
    from sequential_covers [OF prep True, of shuffle] show ?thesis by blast
  next
    case False
    then have s: "useSingleStream ev" by simp
    show ?thesis
    proof (cases "blockOrder ev")
      case ORDER_SEQUENTIAL
      with False show ?thesis by simp
    next
      case ORDER_INTERLEAVED
      from interleaved_covers [OF prep fresh s ORDER_INTERLEAVED tot, of shuffle]
      show ?thesis by blast
    next
      case ORDER_RANDOM
      from random_covers [OF prep fresh s ORDER_RANDOM perm] show ?thesis .
    qed
  qed
  then obtain temp ts' where r: "mergeSubExecParams ev shuffle exeInfo = Some (temp, ts')"
    and u: "map subExecParam ts' = map subExecParam (transfers exeInfo)"
    and c: "coversExactly temp ts'" by blast
  from c have "mset temp = mset (concat (map subExecParam ts'))" by (simp add: coversExactly_def)
  then have "length temp = length (concat (map subExecParam ts'))" by (rule mset_eq_length)
  then have "int (length temp) = totalSubExecs exeInfo"
    using prepared_total [OF prep] tot by (simp only: u)
  with r u c show ?thesis by blast
qed

subsection \<open>A second run under the random order\<close>

text \<open>
  Claim C4 asks that, under each block order, the merged array hold every unit of every
  Transfer of the group exactly once and that the positions a Transfer records in
  \<open>subExecIdx\<close> hold exactly its own units.  The second half fails when Transfer objects
  are used for a second run under the random order: the first run is as the claim says,
  and after the second run the merged array is still a rearrangement of all units, but
  Transfer 0 has recorded the positions 1 and 0, and position 1 holds the unit of
  Transfer 1.  The stale position comes from the first run: only the sequential branch
  clears \<open>subExecIdx\<close>.
\<close>

lemma run1: "prepareGroup randomEnv rev gfxGroup = Some (Inr firstRun)"
  by code_simp

lemma run1_covers: "coversExactly (subExecParamGpu firstRun) (transfers firstRun)"
  by code_simp

lemma run2: "prepareGroup randomEnv id firstRun = Some (Inr secondRun)"
  by code_simp

lemma run2_perm:
  "mset (subExecParamGpu secondRun) = mset (concat (map subExecParam (transfers secondRun)))"
  by code_simp

lemma run2_idx: "subExecIdx (transfers secondRun ! 0) = [1, 0]"
  by code_simp

lemma run2_other: "subExecParamGpu secondRun ! 1 = subExecParam (transfers secondRun ! 1) ! 0"
  by code_simp

lemma run2_own: "subExecParamGpu secondRun ! 1 \<noteq> subExecParam (transfers secondRun ! 0) ! 0"
  by code_simp

lemma run2_not_covers: "\<not> coversExactly (subExecParamGpu secondRun) (transfers secondRun)"
  by code_simp

text \<open>
  Claim C4 asks that, under each block order, the merged array hold every unit of every
  Transfer of the group exactly once and that the positions a Transfer records in
  \<open>subExecIdx\<close> hold exactly its own units.  The second half fails when Transfer objects
  are used for a second run under the random order: the first run is as the claim says,
  and after the second run the merged array is still a rearrangement of all units, but
  Transfer 0 has recorded the positions 1 and 0, and position 1 holds the unit of
  Transfer 1.  The stale position comes from the first run: only the sequential branch
  clears \<open>subExecIdx\<close>.
\<close>

theorem stale_subExecIdx_on_second_run:
  "prepareGroup randomEnv rev gfxGroup = Some (Inr firstRun)
   \<and> coversExactly (subExecParamGpu firstRun) (transfers firstRun)
   \<and> prepareGroup randomEnv id firstRun = Some (Inr secondRun)
   \<and> mset (subExecParamGpu secondRun) = mset (concat (map subExecParam (transfers secondRun)))
   \<and> subExecIdx (transfers secondRun ! 0) = [1, 0]
   \<and> subExecParamGpu secondRun ! 1 = subExecParam (transfers secondRun ! 1) ! 0
   \<and> subExecParamGpu secondRun ! 1 \<noteq> subExecParam (transfers secondRun ! 0) ! 0
   \<and> \<not> coversExactly (subExecParamGpu secondRun) (transfers secondRun)"
  using run1 run1_covers run2 run2_perm run2_idx run2_other run2_own run2_not_covers
  by (intro conjI)

end
